theory Spec2Isabelle
  imports Main "HOL-Library.Multiset"
begin

section \<open>Strings as the script uses them\<close>

text \<open>
  A Python \<open>str\<close> is modelled as a \<^typ>\<open>string\<close>: a list of characters with codes
  0..255. The script's tests on characters only ever name ASCII characters (tab, space,
  slash, the letters), so nothing in the model depends on how a code point beyond 255
  would be represented.
\<close>

abbreviation TAB :: char where "TAB \<equiv> CHR 0x09"
abbreviation NEWLINE :: char where "NEWLINE \<equiv> CHR 0x0A"
abbreviation SPACE :: char where "SPACE \<equiv> CHR 0x20"

text \<open>\<open>c.isspace()\<close> for the characters of the model: the ASCII white space 9..13, the
  separators 28..31, the space, and NEL (133) and the no-break space (160).\<close>

definition isspace :: "char \<Rightarrow> bool" where
  "isspace c = (of_char c \<in> {9, 10, 11, 12, 13, 28, 29, 30, 31, 32, 133, 160 :: nat})"

text \<open>\<open>s.strip()\<close>: white space removed at both ends.\<close>

definition strip :: "string \<Rightarrow> string" where
  "strip s = rev (dropWhile isspace (rev (dropWhile isspace s)))"

text \<open>\<open>s.split(sep)\<close> with a one-character separator: the fields between the
  separators, empty fields kept; the empty string has the one field \<open>''\<close>.\<close>

fun str_split :: "char \<Rightarrow> string \<Rightarrow> string list" where
  "str_split sep [] = [[]]"
| "str_split sep (c # cs) =
     (if c = sep then [] # str_split sep cs
      else (case str_split sep cs of
              [] \<Rightarrow> [[c]]
            | p # ps \<Rightarrow> (c # p) # ps))"

text \<open>\<open>s.replace(old, new)\<close>: every occurrence of \<open>old\<close>, left to right, without
  overlap. With an empty \<open>old\<close> Python puts \<open>new\<close> before every character and at the end.\<close>

function str_replace :: "string \<Rightarrow> string \<Rightarrow> string \<Rightarrow> string" where
  "str_replace old new s =
     (if old = [] then new @ concat (map (\<lambda>c. c # new) s)
      else if s = [] then []
      else if take (length old) s = old
           then new @ str_replace old new (drop (length old) s)
           else hd s # str_replace old new (tl s))"
  by pat_completeness auto
termination
  by (relation "measure (\<lambda>(old, new, s). length s)") auto

declare str_replace.simps [simp del]

text \<open>The decimal text of an integer, as an f-string prints \<open>{n}\<close>.\<close>

fun digits :: "nat \<Rightarrow> string" where
  "digits n =
     (if n < 10 then [''0123456789'' ! n]
      else digits (n div 10) @ [''0123456789'' ! (n mod 10)])"

declare digits.simps [simp del]

definition format_int :: "int \<Rightarrow> string" where
  "format_int i = (if i < 0 then CHR ''-'' # digits (nat (- i)) else digits (nat i))"

section \<open>Configuration\<close>

definition FREQUENCY_THRESHOLD :: int where
  "FREQUENCY_THRESHOLD = 5000"

text \<open>The dictionary \<open>TOP_COUNTS\<close>, in the order it is written.\<close>

definition TOP_COUNTS :: "(string \<times> int) list" where
  "TOP_COUNTS =
     [(''1gram'', 30000), (''2gram'', 10000), (''3gram'', 10000),
      (''4gram'', 10000), (''5gram'', 10000)]"

section \<open>The gram validator\<close>

text \<open>The character class \<open>[a-zA-Z]\<close>: the two ranges of ASCII letters.\<close>

definition is_letter :: "char \<Rightarrow> bool" where
  "is_letter c =
     (let k = (of_char c :: nat) in (97 \<le> k \<and> k \<le> 122) \<or> (65 \<le> k \<and> k \<le> 90))"

text \<open>
  \<open>is_alpha(word)\<close> is \<open>bool(re.match(r'^[a-zA-Z]+$', word))\<close>. The pattern is matched
  from the start of the word: \<open>[a-zA-Z]+\<close> takes the longest run of letters, which must
  not be empty, and \<open>$\<close> (without \<open>re.MULTILINE\<close>) matches at the end of the word and
  also just before a line feed that is the word's last character. Giving back letters
  cannot help the match, since \<open>$\<close> would then stand before a letter.
\<close>

definition is_alpha :: "string \<Rightarrow> bool" where
  "is_alpha word =
     (let run = takeWhile is_letter word; rest = dropWhile is_letter word
      in run \<noteq> [] \<and> (rest = [] \<or> rest = [NEWLINE]))"

definition is_clean_gram :: "string list \<Rightarrow> bool" where
  "is_clean_gram tokens = (length tokens > 0 \<and> list_all is_alpha tokens)"

section \<open>The shard catalog\<close>

definition letters :: string where
  "letters = ''abcdefghijklmnopqrstuvwxyz''"

definition base_url :: "int \<Rightarrow> string" where
  "base_url n =
     ''http://storage.googleapis.com/books/ngrams/books/googlebooks-eng-all-''
       @ format_int n @ ''gram-20120701-''"

text \<open>
  \<open>build_shard_urls\<close> appends to the list \<open>urls\<close> inside its loops; each loop is a
  left fold over the letters that carries the list built so far.
\<close>

definition build_shard_urls :: "int \<Rightarrow> string list" where
  "build_shard_urls n =
     (let base = base_url n; urls = [] in
      if n = 1 then
        foldl (\<lambda>urls letter. urls @ [base @ [letter] @ ''.gz'']) urls letters
      else
        foldl (\<lambda>urls i.
                 foldl (\<lambda>urls j. urls @ [base @ [i, j] @ ''.gz'']) urls letters)
              urls letters)"

text \<open>The shard identifier \<open>main\<close> derives from a URL:
  \<open>url.split('/')[-1].replace('.gz', '')\<close>. \<open>split\<close> never returns an empty list, so
  the index \<open>-1\<close> is always the last field.\<close>

definition shard_id_of :: "string \<Rightarrow> string" where
  "shard_id_of url = str_replace ''.gz'' [] (last (str_split CHR ''/'' url))"

section \<open>Aggregate maps\<close>

text \<open>
  A Python \<open>dict\<close> iterates in insertion order, and \<open>filter_and_rank\<close> sorts what that
  iteration yields, so an aggregate map is an association list in insertion order.
  The script only ever writes to one through \<open>d[k] += v\<close> on a \<open>defaultdict(int)\<close>:
  an existing key keeps its position and has \<open>v\<close> added; a new key is created at \<open>0\<close>,
  has \<open>v\<close> added and goes last.
\<close>

type_synonym dict = "(string \<times> int) list"

fun dict_add :: "dict \<Rightarrow> string \<Rightarrow> int \<Rightarrow> dict" where
  "dict_add [] k v = [(k, 0 + v)]"
| "dict_add ((k', c) # rest) k v =
     (if k' = k then (k', c + v) # rest else (k', c) # dict_add rest k v)"

text \<open>The count a map holds for a gram; a gram it does not hold counts 0.\<close>

definition count_of :: "dict \<Rightarrow> string \<Rightarrow> int" where
  "count_of d k = (case map_of d k of None \<Rightarrow> 0 | Some c \<Rightarrow> c)"

section \<open>The shard stream aggregator\<close>

text \<open>
  What lies outside the script is given to the model as data. A request for a URL either
  fails (\<open>requests.get\<close> or \<open>raise_for_status\<close> raises) or gives a stream, and iterating
  the stream (through \<open>gzip.GzipFile\<close> when the URL ends in \<open>.gz\<close>) yields items one by
  one: a decoded line, or an exception raised at that point of the iteration (the
  connection breaks, the gzip data is corrupt, the bytes of the line are not UTF-8).

  \<open>int(parts[2])\<close> is Python's own parser. It is the parameter \<open>py_int\<close> of the model:
  \<open>py_int s = Some v\<close> when \<open>int(s)\<close> returns \<open>v\<close>, \<open>None\<close> when it raises \<open>ValueError\<close>.
\<close>

datatype stream_error =
    Network_error | Http_status_error | Decompression_error | Io_error | Decode_error

type_synonym stream = "(stream_error + string) list"
type_synonym response = "stream_error + stream"
type_synonym int_parser = "string \<Rightarrow> int option"

text \<open>The body of the \<open>for line in stream\<close> loop after \<open>line.decode('utf-8').strip()\<close>;
  every \<open>continue\<close> leaves the map as it is. (\<open>line_count\<close> only feeds the log.)\<close>

definition process_line :: "int_parser \<Rightarrow> int \<Rightarrow> dict \<Rightarrow> string \<Rightarrow> dict" where
  "process_line py_int n agg line =
     (if line = [] then agg
      else
        let parts = str_split TAB line in
        if length parts \<ge> 3 then
          let gram = parts ! 0 in
          (case py_int (parts ! 2) of
             None \<Rightarrow> agg
           | Some match \<Rightarrow>
               let tokens = str_split SPACE gram in
               if int (length tokens) \<noteq> n \<or> \<not> is_clean_gram tokens then agg
               else dict_add agg gram match)
        else agg)"

text \<open>The loop over the stream, inside the \<open>try\<close>: an item that raises ends the loop
  with that exception.\<close>

fun read_stream :: "int_parser \<Rightarrow> int \<Rightarrow> dict \<Rightarrow> stream \<Rightarrow> stream_error + dict" where
  "read_stream py_int n agg [] = Inr agg"
| "read_stream py_int n agg (Inl e # rest) = Inl e"
| "read_stream py_int n agg (Inr raw # rest) =
     read_stream py_int n (process_line py_int n agg (strip raw)) rest"

text \<open>The \<open>try\<close> block of \<open>process_shard\<close>: the exception it ends with, or the map.\<close>

definition process_shard_try ::
  "int_parser \<Rightarrow> (string \<Rightarrow> response) \<Rightarrow> string \<Rightarrow> int \<Rightarrow> stream_error + dict" where
  "process_shard_try py_int fetch url n =
     (case fetch url of
        Inl e \<Rightarrow> Inl e
      | Inr stream \<Rightarrow> read_stream py_int n [] stream)"

text \<open>\<open>process_shard\<close>: \<open>except Exception\<close> logs the error and returns \<open>{}\<close>.\<close>

definition process_shard ::
  "int_parser \<Rightarrow> (string \<Rightarrow> response) \<Rightarrow> string \<Rightarrow> int \<Rightarrow> dict" where
  "process_shard py_int fetch url n =
     (case process_shard_try py_int fetch url n of
        Inl e \<Rightarrow> []
      | Inr agg \<Rightarrow> agg)"

section \<open>The threshold-rank selector\<close>

record ranked_gram =
  gram :: string
  freq :: int

text \<open>\<open>sorted(items, key=..., reverse=True)\<close>: Python reverses the list, sorts it with
  its stable sort and reverses the result, so that equal keys keep their original
  order.\<close>

definition sorted_reverse :: "('a \<Rightarrow> int) \<Rightarrow> 'a list \<Rightarrow> 'a list" where
  "sorted_reverse key xs = rev (sort_key key (rev xs))"

text \<open>The slice \<open>xs[:k]\<close>: the first \<open>k\<close> items, and for a negative \<open>k\<close> all but the
  last \<open>-k\<close>.\<close>

definition slice_to :: "int \<Rightarrow> 'a list \<Rightarrow> 'a list" where
  "slice_to k xs =
     (if k < 0 then take (nat (int (length xs) + k)) xs else take (nat k) xs)"

definition filter_and_rank :: "dict \<Rightarrow> int \<Rightarrow> int \<Rightarrow> ranked_gram list" where
  "filter_and_rank grams n top_n =
     (let filtered = filter (\<lambda>(gram, freq). freq \<ge> FREQUENCY_THRESHOLD) grams;
          sorted_grams = sorted_reverse snd filtered;
          top_grams = map (\<lambda>(gram, freq). \<lparr>gram = gram, freq = freq\<rparr>)
                          (slice_to top_n sorted_grams)
      in top_grams)"

section \<open>The stores outside the script\<close>

text \<open>
  The checkpoint collection \<open>ngram_shards\<close> maps a document id to its document (the
  \<open>updatedAt\<close> time stamp is left out), the bucket maps a path to the value last
  uploaded there, and \<open>job_completed\<close> is the \<open>completed\<close> field of the document
  \<open>system_jobs/google_ngram_last_run\<close>. \<open>trace\<close> lists the calls the run has made on
  the outside, oldest first; a call is listed whether or not it succeeded.
\<close>

record checkpoint =
  ck_status :: string
  ck_url :: string

datatype payload = Shard_map dict | Ranked "ranked_gram list"

datatype event =
    Skip string string
  | Process string
  | Upload string payload
  | Merge string string
  | Checkpoint string string
  | Job_status

record world =
  ngram_shards :: "string \<Rightarrow> checkpoint option"
  bucket :: "string \<Rightarrow> payload option"
  job_completed :: bool
  trace :: "event list"

text \<open>
  What a run cannot decide: the environment variable, what every request returns, and
  which calls on the stores raise. A Firestore client that cannot be created makes the
  calls that need it raise, so it is part of \<open>get_fails\<close> and \<open>set_fails\<close>.
\<close>

record outside =
  FIREBASE_STORAGE_BUCKET :: "string option"
  fetch :: "string \<Rightarrow> response"
  get_fails :: "string \<Rightarrow> bool"
  set_fails :: "string \<Rightarrow> bool"
  upload_fails :: "string \<Rightarrow> bool"
  job_set_fails :: bool

definition log_call :: "event \<Rightarrow> world \<Rightarrow> world" where
  "log_call ev w = w\<lparr>trace := trace w @ [ev]\<rparr>"

text \<open>\<open>upload_to_storage\<close>: the upload, whose exception is logged and dropped.\<close>

definition upload_to_storage :: "outside \<Rightarrow> string \<Rightarrow> payload \<Rightarrow> world \<Rightarrow> world" where
  "upload_to_storage out file_path data w =
     (let w' = log_call (Upload file_path data) w in
      if upload_fails out file_path then w'
      else w'\<lparr>bucket := (bucket w')(file_path \<mapsto> data)\<rparr>)"

definition doc_id :: "string \<Rightarrow> string \<Rightarrow> string" where
  "doc_id ngram_type shard_id = ngram_type @ ''_'' @ shard_id"

text \<open>\<open>is_shard_done\<close>: \<open>doc.exists and doc.get('status') == 'done'\<close>, and \<open>False\<close> when
  the read raises.\<close>

definition is_shard_done :: "outside \<Rightarrow> world \<Rightarrow> string \<Rightarrow> string \<Rightarrow> bool" where
  "is_shard_done out w ngram_type shard_id =
     (if get_fails out (doc_id ngram_type shard_id) then False
      else (case ngram_shards w (doc_id ngram_type shard_id) of
              None \<Rightarrow> False
            | Some doc \<Rightarrow> ck_status doc = ''done''))"

text \<open>
  The checkpoint write of \<open>main\<close>. With a client it is \<open>doc_ref.set\<close> inside a \<open>try\<close>;
  without one it is \<open>update_firestore_checkpoint\<close>, which makes the same \<open>set\<close> inside
  its own \<open>try\<close>. Both write the same document and both log and drop an exception.
\<close>

definition update_checkpoint ::
  "outside \<Rightarrow> string \<Rightarrow> string \<Rightarrow> string \<Rightarrow> world \<Rightarrow> world" where
  "update_checkpoint out ngram_type shard_id url w =
     (let w' = log_call (Checkpoint ngram_type shard_id) w in
      if set_fails out (doc_id ngram_type shard_id) then w'
      else w'\<lparr>ngram_shards := (ngram_shards w')
                 (doc_id ngram_type shard_id \<mapsto> \<lparr>ck_status = ''done'', ck_url = url\<rparr>)\<rparr>)"

section \<open>The pipeline orchestrator\<close>

definition out_prefix :: string where
  "out_prefix = ''data/google-ngram''"

text \<open>The merge loop \<open>for gram, freq in shard_results.items(): type_aggregate[gram] += freq\<close>.\<close>

definition merge :: "dict \<Rightarrow> dict \<Rightarrow> dict" where
  "merge type_aggregate shard_results =
     foldl (\<lambda>agg (gram, freq). dict_add agg gram freq) type_aggregate shard_results"

text \<open>
  The body of \<open>for url in urls\<close>, on the world and the type aggregate. (The counters
  \<open>processed_count\<close> and \<open>skipped_count\<close> only feed the log, and \<open>time.sleep\<close> changes
  nothing the model holds.)
\<close>

definition process_url ::
  "int_parser \<Rightarrow> outside \<Rightarrow> int \<Rightarrow> world \<times> dict \<Rightarrow> string \<Rightarrow> world \<times> dict" where
  "process_url py_int out n s url =
     (case s of (w, type_aggregate) \<Rightarrow>
      let ngram_type = format_int n @ ''gram'';
          shard_id = shard_id_of url
      in
      if is_shard_done out w ngram_type shard_id then
        (log_call (Skip ngram_type shard_id) w, type_aggregate)
      else
        let shard_results = process_shard py_int (fetch out) url n;
            w1 = log_call (Process url) w;
            filtered_shard =
              filter (\<lambda>(gram, freq). freq \<ge> FREQUENCY_THRESHOLD) shard_results;
            shard_file =
              out_prefix @ ''/'' @ ngram_type @ ''_'' @ shard_id @ ''_filtered.json'';
            w2 = upload_to_storage out shard_file (Shard_map filtered_shard) w1;
            type_aggregate' = merge type_aggregate shard_results;
            w3 = log_call (Merge ngram_type shard_id) w2;
            w4 = update_checkpoint out ngram_type shard_id url w3
        in (w4, type_aggregate'))"

datatype py_error = KeyError string

text \<open>
  The body of \<open>for n in range(1, 6)\<close>, on the world and the two lists \<open>words_top\<close> and
  \<open>phrases_top_accum\<close>. \<open>TOP_COUNTS[ngram_type]\<close> raises \<open>KeyError\<close> for a key the
  dictionary does not have; nothing catches it.
\<close>

type_synonym run_state = "world \<times> ranked_gram list \<times> ranked_gram list"

definition process_type ::
  "int_parser \<Rightarrow> outside \<Rightarrow> int \<Rightarrow> run_state \<Rightarrow> py_error + run_state" where
  "process_type py_int out n s =
     (case s of (w, words_top, phrases_top_accum) \<Rightarrow>
      let ngram_type = format_int n @ ''gram'';
          urls = build_shard_urls n;
          (w1, type_aggregate) = foldl (process_url py_int out n) (w, []) urls
      in
      (case map_of TOP_COUNTS ngram_type of
         None \<Rightarrow> Inl (KeyError ngram_type)
       | Some top_n \<Rightarrow>
           let top_results = filter_and_rank type_aggregate n top_n;
               top_file = out_prefix @ ''/'' @ ngram_type @ ''_top.json'';
               w2 = upload_to_storage out top_file (Ranked top_results) w1
           in if n = 1 then Inr (w2, top_results, phrases_top_accum)
              else Inr (w2, words_top, phrases_top_accum @ top_results)))"

fun process_types ::
  "int_parser \<Rightarrow> outside \<Rightarrow> int list \<Rightarrow> run_state \<Rightarrow> py_error + run_state" where
  "process_types py_int out [] s = Inr s"
| "process_types py_int out (n # ns) s =
     (case process_type py_int out n s of
        Inl e \<Rightarrow> Inl e
      | Inr s' \<Rightarrow> process_types py_int out ns s')"

text \<open>The write of the job status, whose exception is logged and dropped.\<close>

definition update_job_status :: "outside \<Rightarrow> world \<Rightarrow> world" where
  "update_job_status out w =
     (let w' = log_call Job_status w in
      if job_set_fails out then w' else w'\<lparr>job_completed := True\<rparr>)"

text \<open>What \<open>main\<close> does after the loop over the gram orders: the job status, then the
  consolidated outputs, each only when its list is not empty.\<close>

definition finish :: "outside \<Rightarrow> run_state \<Rightarrow> world" where
  "finish out s =
     (case s of (w, words_top, phrases_top_accum) \<Rightarrow>
      let w1 = update_job_status out w;
          w2 = (if words_top \<noteq> []
                then upload_to_storage out (out_prefix @ ''/words_top.json'')
                       (Ranked words_top) w1
                else w1);
          w3 = (if phrases_top_accum \<noteq> []
                then upload_to_storage out (out_prefix @ ''/phrases_top.json'')
                       (Ranked phrases_top_accum) w2
                else w2)
      in w3)"

text \<open>\<open>main\<close>: without a bucket name (unset or empty) it returns at once.\<close>

definition main :: "int_parser \<Rightarrow> outside \<Rightarrow> world \<Rightarrow> py_error + world" where
  "main py_int out w =
     (case FIREBASE_STORAGE_BUCKET out of
        None \<Rightarrow> Inr w
      | Some bucket_name \<Rightarrow>
          if bucket_name = [] then Inr w
          else
            (case process_types py_int out [1, 2, 3, 4, 5] (w, [], []) of
               Inl e \<Rightarrow> Inl e
             | Inr s \<Rightarrow> Inr (finish out s)))"

section \<open>Inputs for the examples\<close>

text \<open>A parser for the examples: an optional minus sign and decimal digits, on which it
  agrees with \<open>int\<close>.\<close>

definition digit_value :: "char \<Rightarrow> int" where
  "digit_value c = int (of_char c) - 48"

definition is_digit :: "char \<Rightarrow> bool" where
  "is_digit c = (48 \<le> (of_char c :: nat) \<and> (of_char c :: nat) \<le> 57)"

definition decimal :: "string \<Rightarrow> int option" where
  "decimal s =
     (let body = (if s \<noteq> [] \<and> hd s = CHR ''-'' then tl s else s) in
      if body = [] \<or> \<not> list_all is_digit body then None
      else
        let v = foldl (\<lambda>a c. 10 * a + digit_value c) 0 body in
        Some (if s \<noteq> [] \<and> hd s = CHR ''-'' then - v else v))"

text \<open>A line of tab-separated fields.\<close>

fun tsv :: "string list \<Rightarrow> string" where
  "tsv [] = []"
| "tsv [f] = f"
| "tsv (f # fs) = f @ TAB # tsv fs"

text \<open>A network on which every request gives a stream of the one line.\<close>

definition one_line :: "string \<Rightarrow> string \<Rightarrow> response" where
  "one_line line u = Inr [Inr line]"

text \<open>An environment in which every request fails and the stores work.\<close>

definition offline :: outside where
  "offline =
     \<lparr>FIREBASE_STORAGE_BUCKET = Some ''bucket'',
      fetch = (\<lambda>u. Inl Network_error),
      get_fails = (\<lambda>k. False),
      set_fails = (\<lambda>k. False),
      upload_fails = (\<lambda>f. False),
      job_set_fails = False\<rparr>"

text \<open>The stores before a first run.\<close>

definition empty_world :: world where
  "empty_world =
     \<lparr>ngram_shards = (\<lambda>k. None), bucket = (\<lambda>f. None), job_completed = False, trace = []\<rparr>"

text \<open>The first URL of the catalog of order 1.\<close>

definition url_a :: string where
  "url_a =
     ''http://storage.googleapis.com/books/ngrams/books/googlebooks-eng-all-1gram-20120701-a.gz''"


text \<open>An environment in which every request gives the one line
  \<open>cat<TAB>1900<TAB>6000<TAB>100\<close> and the stores work.\<close>

definition cat_env :: outside where
  "cat_env =
     \<lparr>FIREBASE_STORAGE_BUCKET = Some ''bucket'',
      fetch = one_line (tsv [''cat'', ''1900'', ''6000'', ''100'']),
      get_fails = (\<lambda>k. False),
      set_fails = (\<lambda>k. False),
      upload_fails = (\<lambda>f. False),
      job_set_fails = False\<rparr>"

section \<open>Notions the properties are stated with\<close>

text \<open>The entries of an aggregate that reach the threshold of 5000, in the aggregate's
  order.\<close>

definition survivors :: "dict \<Rightarrow> dict" where
  "survivors grams = filter (\<lambda>(gram, freq). freq \<ge> 5000) grams"

text \<open>An entry as the record \<open>{gram, freq}\<close>.\<close>

definition as_record :: "string \<times> int \<Rightarrow> ranked_gram" where
  "as_record p = \<lparr>gram = fst p, freq = snd p\<rparr>"

text \<open>The part of a shard identifier before the shard key.\<close>

definition shard_stem :: "int \<Rightarrow> string" where
  "shard_stem n = ''googlebooks-eng-all-'' @ format_int n @ ''gram-20120701-''"

text \<open>The shard keys in catalog order: the letters for order 1, the pairs of letters
  otherwise, the first letter varying slowest.\<close>

definition shard_keys :: "int \<Rightarrow> string list" where
  "shard_keys n =
     (if n = 1 then map (\<lambda>c. [c]) letters
      else concat (map (\<lambda>i. map (\<lambda>j. [i, j]) letters) letters))"

text \<open>A token made of one or more ASCII letters and nothing else.\<close>

definition alphabetic :: "string \<Rightarrow> bool" where
  "alphabetic t = (t \<noteq> [] \<and> list_all is_letter t)"


text \<open>The name of a gram order, \<open>f"{n}gram"\<close>.\<close>

definition type_name :: "int \<Rightarrow> string" where
  "type_name n = format_int n @ ''gram''"

text \<open>The paths of the artifacts.\<close>

definition shard_file :: "int \<Rightarrow> string \<Rightarrow> string" where
  "shard_file n url =
     out_prefix @ ''/'' @ type_name n @ ''_'' @ shard_id_of url @ ''_filtered.json''"

definition top_file :: "int \<Rightarrow> string" where
  "top_file n = out_prefix @ ''/'' @ type_name n @ ''_top.json''"

definition words_file :: string where
  "words_file = out_prefix @ ''/words_top.json''"

definition phrases_file :: string where
  "phrases_file = out_prefix @ ''/phrases_top.json''"

text \<open>A checkpoint document with status \<open>done\<close> is stored under the id.\<close>

definition is_done :: "world \<Rightarrow> string \<Rightarrow> bool" where
  "is_done w k = (case ngram_shards w k of None \<Rightarrow> False | Some doc \<Rightarrow> ck_status doc = ''done'')"

text \<open>The shards merged in a list of calls, by gram order and shard identifier.\<close>

fun merges_of :: "event list \<Rightarrow> (string \<times> string) list" where
  "merges_of [] = []"
| "merges_of (Merge t i # evs) = (t, i) # merges_of evs"
| "merges_of (ev # evs) = merges_of evs"

text \<open>The shard loop of one gram order, from a world and an empty type aggregate.\<close>

definition shard_loop :: "int_parser \<Rightarrow> outside \<Rightarrow> int \<Rightarrow> world \<Rightarrow> world \<times> dict" where
  "shard_loop py_int out n w = foldl (process_url py_int out n) (w, []) (build_shard_urls n)"

text \<open>The cap of a gram order, and the ranked output of the order when its loop starts
  in the world \<open>w\<close>.\<close>

definition cap :: "int \<Rightarrow> int" where
  "cap n = (if n = 1 then 30000 else 10000)"

definition top_results :: "int_parser \<Rightarrow> outside \<Rightarrow> int \<Rightarrow> world \<Rightarrow> ranked_gram list" where
  "top_results py_int out n w = filter_and_rank (snd (shard_loop py_int out n w)) n (cap n)"

text \<open>The world after the pass over one gram order: the shard loop, then the upload of
  the ranked output.\<close>

definition after_type :: "int_parser \<Rightarrow> outside \<Rightarrow> int \<Rightarrow> world \<Rightarrow> world" where
  "after_type py_int out n w =
     upload_to_storage out (top_file n) (Ranked (top_results py_int out n w))
       (fst (shard_loop py_int out n w))"

text \<open>The world after the passes over the first \<open>k\<close> gram orders of a run, and the
  ranked output of order \<open>k\<close> in the run.\<close>

fun world_after :: "int_parser \<Rightarrow> outside \<Rightarrow> world \<Rightarrow> nat \<Rightarrow> world" where
  "world_after py_int out w 0 = w"
| "world_after py_int out w (Suc k) =
     after_type py_int out (int (Suc k)) (world_after py_int out w k)"

definition ranked :: "int_parser \<Rightarrow> outside \<Rightarrow> world \<Rightarrow> nat \<Rightarrow> ranked_gram list" where
  "ranked py_int out w k = top_results py_int out (int k) (world_after py_int out w (k - 1))"

text \<open>The calls a run makes, when it ends without an exception.\<close>

definition run_events :: "int_parser \<Rightarrow> outside \<Rightarrow> world \<Rightarrow> event list" where
  "run_events py_int out w =
     (case main py_int out w of
        Inl e \<Rightarrow> []
      | Inr w' \<Rightarrow> drop (length (trace w)) (trace w'))"

text \<open>The environment names a bucket.\<close>

definition configured :: "outside \<Rightarrow> bool" where
  "configured out = (case FIREBASE_STORAGE_BUCKET out of None \<Rightarrow> False | Some b \<Rightarrow> b \<noteq> [])"

text \<open>The calls of one turn of the shard loop, in the world the turn starts in.\<close>

definition url_events :: "int_parser \<Rightarrow> outside \<Rightarrow> int \<Rightarrow> world \<Rightarrow> string \<Rightarrow> event list" where
  "url_events py_int out n w url =
     (if is_shard_done out w (type_name n) (shard_id_of url)
      then [Skip (type_name n) (shard_id_of url)]
      else [Process url,
            Upload (shard_file n url)
              (Shard_map (survivors (process_shard py_int (fetch out) url n))),
            Merge (type_name n) (shard_id_of url),
            Checkpoint (type_name n) (shard_id_of url)])"

text \<open>The calls of the shard loop over a list of URLs.\<close>

fun loop_events ::
  "int_parser \<Rightarrow> outside \<Rightarrow> int \<Rightarrow> world \<times> dict \<Rightarrow> string list \<Rightarrow> event list" where
  "loop_events py_int out n s [] = []"
| "loop_events py_int out n s (url # urls) =
     url_events py_int out n (fst s) url
       @ loop_events py_int out n (process_url py_int out n s url) urls"

text \<open>The calls of the pass over one gram order, and of the end of \<open>main\<close>.\<close>

definition type_events :: "int_parser \<Rightarrow> outside \<Rightarrow> int \<Rightarrow> world \<Rightarrow> event list" where
  "type_events py_int out n w =
     loop_events py_int out n (w, []) (build_shard_urls n)
       @ [Upload (top_file n) (Ranked (top_results py_int out n w))]"

definition finish_events :: "ranked_gram list \<Rightarrow> ranked_gram list \<Rightarrow> event list" where
  "finish_events words_top phrases =
     Job_status
       # (if words_top \<noteq> [] then [Upload words_file (Ranked words_top)] else [])
       @ (if phrases \<noteq> [] then [Upload phrases_file (Ranked phrases)] else [])"

text \<open>A call of the shard loop of order \<open>n\<close> on one of the URLs \<open>U\<close>.\<close>

fun shard_event :: "int \<Rightarrow> string set \<Rightarrow> event \<Rightarrow> bool" where
  "shard_event n U (Skip t i) = (t = type_name n \<and> i \<in> shard_id_of ` U)"
| "shard_event n U (Process url) = (url \<in> U)"
| "shard_event n U (Upload f p) = (f \<in> shard_file n ` U)"
| "shard_event n U (Merge t i) = (t = type_name n \<and> i \<in> shard_id_of ` U)"
| "shard_event n U (Checkpoint t i) = (t = type_name n \<and> i \<in> shard_id_of ` U)"
| "shard_event n U Job_status = False"

text \<open>The calls of the passes over the first \<open>k\<close> gram orders of a run.\<close>

fun passes_events :: "int_parser \<Rightarrow> outside \<Rightarrow> world \<Rightarrow> nat \<Rightarrow> event list" where
  "passes_events py_int out w 0 = []"
| "passes_events py_int out w (Suc k) =
     passes_events py_int out w k
       @ type_events py_int out (int (Suc k)) (world_after py_int out w k)"

text \<open>The lists \<open>main\<close> holds after its loop: the ranked output of order 1, and the
  ranked outputs of the orders 2 to 5 one after the other.\<close>

definition words_top_of :: "int_parser \<Rightarrow> outside \<Rightarrow> world \<Rightarrow> ranked_gram list" where
  "words_top_of py_int out w = ranked py_int out w 1"

definition phrases_top_of :: "int_parser \<Rightarrow> outside \<Rightarrow> world \<Rightarrow> ranked_gram list" where
  "phrases_top_of py_int out w =
     ranked py_int out w 2 @ ranked py_int out w 3 @ ranked py_int out w 4 @ ranked py_int out w 5"

section \<open>Facts about strings and lists\<close>

lemma digits_small: "n < 10 \<Longrightarrow> digits n = [''0123456789'' ! n]"
  by (simp add: digits.simps)

section \<open>Properties of the threshold-rank selector\<close>

lemma mset_sorted_reverse: "mset (sorted_reverse key xs) = mset xs"
  by (simp add: sorted_reverse_def)

lemma length_sorted_reverse: "length (sorted_reverse key xs) = length xs"
  by (simp add: sorted_reverse_def)

lemma sorted_reverse_descending:
  "sorted_wrt (\<lambda>a b. key a \<ge> key b) (sorted_reverse key xs)"
proof -
  have "sorted (map key (sort_key key (rev xs)))"
    by (rule sorted_sort_key)
  then have "sorted_wrt (\<lambda>a b. key a \<le> key b) (sort_key key (rev xs))"
    by (simp add: sorted_map)
  then show ?thesis
    by (simp add: sorted_reverse_def sorted_wrt_rev)
qed

lemma sorted_reverse_stable:
  "filter (\<lambda>y. key y = v) (sorted_reverse key xs) = filter (\<lambda>y. key y = v) xs"
  by (simp add: sorted_reverse_def rev_filter [symmetric] sort_key_stable)

lemma filter_and_rank_eq:
  "0 \<le> k \<Longrightarrow> filter_and_rank grams n k =
     map as_record (take (nat k) (sorted_reverse snd (survivors grams)))"
  by (simp add: filter_and_rank_def slice_to_def survivors_def FREQUENCY_THRESHOLD_def
      as_record_def case_prod_unfold)

text \<open>
  C2. For every aggregate, gram order \<open>n\<close> and cap \<open>k\<close> (a count, \<open>0 \<le> k\<close>; the script
  passes 30000 and 10000), \<open>filter_and_rank\<close> returns, as \<open>{gram, freq}\<close> records, the
  first \<open>k\<close> entries of the survivors sorted by \<open>sorted_reverse\<close>, where the survivors are
  exactly the entries with frequency at least 5000: the threshold is applied before the
  cut. The sort rearranges the survivors, puts them in descending frequency and is
  stable: for every frequency \<open>v\<close>, the survivors with frequency \<open>v\<close> stand in the order
  they have in the aggregate. The result has \<open>min k (number of survivors)\<close> entries, and
  holds every survivor when there are at most \<open>k\<close>. The cap in \<open>TOP_COUNTS\<close> is 30000
  for order 1 and 10000 for the orders 2 to 5.
\<close>

theorem filter_and_rank_spec:
  assumes "0 \<le> k"
  shows "filter_and_rank grams n k =
           map as_record (take (nat k) (sorted_reverse snd (survivors grams)))
       \<and> set (survivors grams) = {(g, f). (g, f) \<in> set grams \<and> 5000 \<le> f}
       \<and> mset (sorted_reverse snd (survivors grams)) = mset (survivors grams)
       \<and> sorted_wrt (\<lambda>a b. snd a \<ge> snd b) (sorted_reverse snd (survivors grams))
       \<and> (\<forall>v. filter (\<lambda>p. snd p = v) (sorted_reverse snd (survivors grams))
              = filter (\<lambda>p. snd p = v) (survivors grams))
       \<and> length (filter_and_rank grams n k) = min (nat k) (length (survivors grams))
       \<and> (length (survivors grams) \<le> nat k \<longrightarrow>
            mset (filter_and_rank grams n k) = mset (map as_record (survivors grams)))
       \<and> map_of TOP_COUNTS (format_int 1 @ ''gram'') = Some 30000
       \<and> (\<forall>m \<in> {2, 3, 4, 5}. map_of TOP_COUNTS (format_int m @ ''gram'') = Some 10000)"
proof -
  have eq: "filter_and_rank grams n k =
      map as_record (take (nat k) (sorted_reverse snd (survivors grams)))"
    using assms by (rule filter_and_rank_eq)
  have len: "length (filter_and_rank grams n k) = min (nat k) (length (survivors grams))"
    by (simp add: eq length_sorted_reverse min.commute)
  have all: "mset (filter_and_rank grams n k) = mset (map as_record (survivors grams))"
    if "length (survivors grams) \<le> nat k"
    using that by (simp add: eq length_sorted_reverse mset_sorted_reverse)
  have caps1: "map_of TOP_COUNTS (format_int 1 @ ''gram'') = Some 30000"
    by (simp add: TOP_COUNTS_def format_int_def digits_small)
  have caps2: "\<forall>m \<in> {2, 3, 4, 5}. map_of TOP_COUNTS (format_int m @ ''gram'') = Some 10000"
    by (simp add: TOP_COUNTS_def format_int_def digits_small)
  have surv: "set (survivors grams) = {(g, f). (g, f) \<in> set grams \<and> 5000 \<le> f}"
    by (auto simp: survivors_def)
  show ?thesis
    using eq len all caps1 caps2 surv
    by (simp add: mset_sorted_reverse sorted_reverse_descending sorted_reverse_stable)
qed

theorem filter_and_rank_spec_witness:
  "(0::int) \<le> 2
   \<and> filter_and_rank
        [(''a'', 10), (''b'', 6000), (''c'', 7000), (''d'', 6000), (''e'', 4999)] 1 2
       = [\<lparr>gram = ''c'', freq = 7000\<rparr>, \<lparr>gram = ''b'', freq = 6000\<rparr>]
   \<and> length (filter_and_rank
        [(''a'', 10), (''b'', 6000), (''c'', 7000), (''d'', 6000), (''e'', 4999)] 1 2) = 2"
  using filter_and_rank_spec
    [of 2 "[(''a'', 10), (''b'', 6000), (''c'', 7000), (''d'', 6000), (''e'', 4999)]" 1]
  by (simp add: survivors_def sorted_reverse_def as_record_def)

section \<open>Properties of the shard catalog\<close>

lemma foldl_append_each: "foldl (\<lambda>acc x. acc @ [f x]) a xs = a @ map f xs"
  by (induction xs arbitrary: a) simp_all

lemma foldl_append_nested:
  "foldl (\<lambda>acc i. foldl (\<lambda>acc j. acc @ [g i j]) acc ys) a xs
     = a @ concat (map (\<lambda>i. map (g i) ys) xs)"
  by (induction xs arbitrary: a) (simp_all add: foldl_append_each)

lemma concat_map_product:
  "concat (map (\<lambda>i. map (g i) ys) xs) = map (\<lambda>(i, j). g i j) (List.product xs ys)"
  by (induction xs) simp_all

lemma build_shard_urls_1:
  "build_shard_urls 1 = map (\<lambda>c. base_url 1 @ [c] @ ''.gz'') letters"
  by (simp add: build_shard_urls_def foldl_append_each)

lemma build_shard_urls_other:
  "n \<noteq> 1 \<Longrightarrow> build_shard_urls n =
     concat (map (\<lambda>i. map (\<lambda>j. base_url n @ [i, j] @ ''.gz'') letters) letters)"
  by (simp add: build_shard_urls_def foldl_append_nested)

lemma length_letters: "length letters = 26"
  by (simp add: letters_def)

lemma distinct_letters: "distinct letters"
  by (simp add: letters_def)

lemma str_split_not_Nil: "str_split sep s \<noteq> []"
  by (induction s) (auto split: list.splits)

lemma str_split_append_sep:
  "str_split sep (xs @ sep # ys) = str_split sep xs @ str_split sep ys"
proof (induction xs)
  case Nil
  show ?case by simp
next
  case (Cons c xs)
  obtain p ps where "str_split sep xs = p # ps"
    using str_split_not_Nil [of sep xs] by (cases "str_split sep xs") auto
  with Cons show ?case by simp
qed

lemma str_split_no_sep: "sep \<notin> set s \<Longrightarrow> str_split sep s = [s]"
  by (induction s) auto

lemma last_str_split:
  "sep \<notin> set ys \<Longrightarrow> last (str_split sep (xs @ sep # ys)) = ys"
  by (simp add: str_split_append_sep str_split_no_sep)

lemma str_replace_gz_end:
  "CHR ''.'' \<notin> set s \<Longrightarrow> str_replace ''.gz'' [] (s @ ''.gz'') = s"
proof (induction s)
  case Nil
  show ?case
    by (simp add: str_replace.simps [of "''.gz''" "[]" "''.gz''"]
        str_replace.simps [of "''.gz''" "[]" "[]"])
next
  case (Cons c s)
  then have "c \<noteq> CHR ''.''" and ih: "str_replace ''.gz'' [] (s @ ''.gz'') = s"
    by auto
  then show ?case
    by (subst str_replace.simps) simp
qed

lemma set_digits: "set (digits n) \<subseteq> set ''0123456789''"
proof (induction n rule: digits.induct)
  case (1 n)
  have nth: "''0123456789'' ! k \<in> set ''0123456789''" if "k < 10" for k
    using that by (intro nth_mem) simp
  show ?case
  proof (cases "n < 10")
    case True
    then show ?thesis
      using nth [of n] by (subst digits.simps) simp
  next
    case False
    have "n mod 10 < 10" by simp
    then show ?thesis
      using False 1 nth [of "n mod 10"] by (subst digits.simps) simp
  qed
qed

lemma digits_clean: "CHR ''/'' \<notin> set (digits m)" "CHR ''.'' \<notin> set (digits m)"
proof -
  have "c \<in> set ''0123456789''" if "c \<in> set (digits m)" for c
    using that set_digits [of m] by blast
  then have "c \<noteq> CHR ''/'' \<and> c \<noteq> CHR ''.''" if "c \<in> set (digits m)" for c
    using that by fastforce
  then show "CHR ''/'' \<notin> set (digits m)" "CHR ''.'' \<notin> set (digits m)"
    by blast+
qed

lemma format_int_clean:
  "CHR ''/'' \<notin> set (format_int n)" "CHR ''.'' \<notin> set (format_int n)"
  by (simp_all add: format_int_def digits_clean)

lemma shard_stem_clean:
  "CHR ''/'' \<notin> set (shard_stem n)" "CHR ''.'' \<notin> set (shard_stem n)"
  by (simp_all add: shard_stem_def format_int_clean)

lemma base_url_stem:
  "base_url n = ''http://storage.googleapis.com/books/ngrams/books'' @ CHR ''/'' # shard_stem n"
  by (simp add: base_url_def shard_stem_def)

lemma shard_id_of_url:
  assumes "CHR ''/'' \<notin> set key" "CHR ''.'' \<notin> set key"
  shows "shard_id_of (base_url n @ key @ ''.gz'') = shard_stem n @ key"
proof -
  have slash: "CHR ''/'' \<notin> set (shard_stem n @ key @ ''.gz'')"
    using assms(1) by (simp add: shard_stem_clean)
  have dot: "CHR ''.'' \<notin> set (shard_stem n @ key)"
    using assms(2) by (simp add: shard_stem_clean)
  have eq: "base_url n @ key @ ''.gz'' =
      ''http://storage.googleapis.com/books/ngrams/books'' @ CHR ''/'' # (shard_stem n @ key @ ''.gz'')"
    by (simp add: base_url_stem)
  have "last (str_split CHR ''/'' (base_url n @ key @ ''.gz'')) = shard_stem n @ key @ ''.gz''"
    unfolding eq by (rule last_str_split [OF slash])
  then have "shard_id_of (base_url n @ key @ ''.gz'') =
      str_replace ''.gz'' [] ((shard_stem n @ key) @ ''.gz'')"
    by (simp add: shard_id_of_def)
  then show ?thesis
    using str_replace_gz_end [OF dot] by simp
qed

lemma letters_clean: "CHR ''/'' \<notin> set letters" "CHR ''.'' \<notin> set letters"
  by (simp_all add: letters_def)

lemma build_shard_urls_keys:
  "build_shard_urls n = map (\<lambda>key. base_url n @ key @ ''.gz'') (shard_keys n)"
  by (cases "n = 1")
     (simp_all add: build_shard_urls_1 build_shard_urls_other shard_keys_def map_concat comp_def)

lemma shard_keys_clean:
  "key \<in> set (shard_keys n) \<Longrightarrow> CHR ''/'' \<notin> set key \<and> CHR ''.'' \<notin> set key"
  by (auto simp: shard_keys_def letters_clean split: if_splits)

lemma distinct_shard_keys: "distinct (shard_keys n)"
proof (cases "n = 1")
  case True
  then show ?thesis
    by (simp add: shard_keys_def distinct_map distinct_letters inj_on_def)
next
  case False
  have "distinct (map (\<lambda>(i, j). [i, j]) (List.product letters letters))"
    by (simp add: distinct_map distinct_product distinct_letters inj_on_def)
  with False show ?thesis
    by (simp add: shard_keys_def concat_map_product)
qed

lemma shard_ids:
  "map shard_id_of (build_shard_urls n) = map (\<lambda>key. shard_stem n @ key) (shard_keys n)"
  using shard_keys_clean by (simp add: build_shard_urls_keys shard_id_of_url)

lemma distinct_shard_ids: "distinct (map shard_id_of (build_shard_urls n))"
  by (simp add: shard_ids distinct_map distinct_shard_keys inj_on_def)

lemma length_build_shard_urls_other: "n \<noteq> 1 \<Longrightarrow> length (build_shard_urls n) = 676"
  by (simp add: build_shard_urls_other concat_map_product length_letters)

text \<open>
  C6. For gram order 1 the catalog is the 26 URLs of the letters \<open>a\<close> to \<open>z\<close>, in
  alphabetical order. For every other order, the orders 2 to 5 among them, it is the 676
  URLs of the ordered pairs of letters, the outer loop over the first letter and the
  inner loop over the second. For every order, no two URLs of the catalog give the same
  shard identifier. \<open>build_shard_urls\<close> is a function of \<open>n\<close> alone: it reads and
  writes nothing outside.
\<close>

theorem build_shard_urls_catalog:
  "build_shard_urls 1 = map (\<lambda>c. base_url 1 @ [c] @ ''.gz'') letters
   \<and> length (build_shard_urls 1) = 26
   \<and> (\<forall>n. n \<noteq> 1 \<longrightarrow>
          build_shard_urls n =
            concat (map (\<lambda>i. map (\<lambda>j. base_url n @ [i, j] @ ''.gz'') letters) letters)
        \<and> length (build_shard_urls n) = 676)
   \<and> (\<forall>n. distinct (map shard_id_of (build_shard_urls n)))
   \<and> letters = ''abcdefghijklmnopqrstuvwxyz''"
proof (intro conjI allI impI)
  show "build_shard_urls 1 = map (\<lambda>c. base_url 1 @ [c] @ ''.gz'') letters"
    by (rule build_shard_urls_1)
  show "length (build_shard_urls 1) = 26"
    by (simp add: build_shard_urls_1 length_letters)
  show "letters = ''abcdefghijklmnopqrstuvwxyz''"
    by (rule letters_def)
next
  fix n :: int
  assume "n \<noteq> 1"
  then show "build_shard_urls n =
      concat (map (\<lambda>i. map (\<lambda>j. base_url n @ [i, j] @ ''.gz'') letters) letters)"
    by (rule build_shard_urls_other)
  show "length (build_shard_urls n) = 676"
    using \<open>n \<noteq> 1\<close> by (rule length_build_shard_urls_other)
next
  fix n
  show "distinct (map shard_id_of (build_shard_urls n))"
    by (rule distinct_shard_ids)
qed

theorem build_shard_urls_catalog_witness:
  "(3::int) \<noteq> 1 \<and> length (build_shard_urls 3) = 676 \<and> length (build_shard_urls 1) = 26
   \<and> take 2 (build_shard_urls 1) =
       [''http://storage.googleapis.com/books/ngrams/books/googlebooks-eng-all-1gram-20120701-a.gz'',
        ''http://storage.googleapis.com/books/ngrams/books/googlebooks-eng-all-1gram-20120701-b.gz'']
   \<and> distinct (map shard_id_of (build_shard_urls 3))"
proof -
  note c = build_shard_urls_catalog
  have three: "(3::int) \<noteq> 1" by simp
  have urls1: "build_shard_urls 1 = map (\<lambda>c. base_url 1 @ [c] @ ''.gz'') letters"
    by (rule c [THEN conjunct1])
  have len1: "length (build_shard_urls 1) = 26"
    by (rule c [THEN conjunct2, THEN conjunct1])
  have len3: "length (build_shard_urls 3) = 676"
    using c [THEN conjunct2, THEN conjunct2, THEN conjunct1, THEN spec, of 3] three by blast
  have dist3: "distinct (map shard_id_of (build_shard_urls 3))"
    using c [THEN conjunct2, THEN conjunct2, THEN conjunct2, THEN conjunct1] by blast
  have first: "take 2 (build_shard_urls 1) =
       [''http://storage.googleapis.com/books/ngrams/books/googlebooks-eng-all-1gram-20120701-a.gz'',
        ''http://storage.googleapis.com/books/ngrams/books/googlebooks-eng-all-1gram-20120701-b.gz'']"
    unfolding urls1 by (simp add: letters_def base_url_def format_int_def digits_small)
  show ?thesis
    using three len1 len3 dist3 first by blast
qed

section \<open>The lines of a shard stream\<close>

lemma is_letter_not_newline: "\<not> is_letter NEWLINE"
  by (simp add: is_letter_def)









lemma count_of_dict_add:
  "count_of (dict_add agg g m) g' = count_of agg g' + (if g' = g then m else 0)"
  by (induction agg g m rule: dict_add.induct) (auto simp: count_of_def)




text \<open>
  On a token that ends in a line feed, which no stripped line of a stream holds,
  \<open>is_clean_gram\<close> accepts what is not alphabetic: \<open>$\<close> matches before the line feed.
\<close>

lemma is_clean_gram_trailing_newline:
  "is_clean_gram [''cat'' @ [NEWLINE]] \<and> \<not> alphabetic (''cat'' @ [NEWLINE])"
  by (simp add: is_clean_gram_def is_alpha_def is_letter_def alphabetic_def)

section \<open>Merging shards into the aggregate\<close>

lemma dict_add_nonneg:
  "list_all (\<lambda>p. 0 \<le> snd p) agg \<Longrightarrow> 0 \<le> v \<Longrightarrow> list_all (\<lambda>p. 0 \<le> snd p) (dict_add agg k v)"
  by (induction agg k v rule: dict_add.induct) auto

lemma process_line_result:
  "process_line py_int n agg line = agg
   \<or> (\<exists>match. 3 \<le> length (str_split TAB line)
         \<and> py_int (str_split TAB line ! 2) = Some match
         \<and> process_line py_int n agg line = dict_add agg (str_split TAB line ! 0) match)"
  by (auto simp: process_line_def Let_def split: option.splits)

lemma process_line_nonneg:
  assumes "list_all (\<lambda>p. 0 \<le> snd p) agg"
    and "\<forall>v. 3 \<le> length (str_split TAB line) \<longrightarrow>
           py_int (str_split TAB line ! 2) = Some v \<longrightarrow> 0 \<le> v"
  shows "list_all (\<lambda>p. 0 \<le> snd p) (process_line py_int n agg line)"
  using process_line_result [of py_int n agg line] assms
  by (auto simp: dict_add_nonneg)

lemma process_line_monotone:
  assumes "\<forall>v. 3 \<le> length (str_split TAB line) \<longrightarrow>
           py_int (str_split TAB line ! 2) = Some v \<longrightarrow> 0 \<le> v"
  shows "count_of agg g \<le> count_of (process_line py_int n agg line) g"
  using process_line_result [of py_int n agg line] assms
  by (auto simp: count_of_dict_add)

lemma read_stream_nonneg:
  assumes "\<forall>raw v. Inr raw \<in> set stream \<longrightarrow>
             3 \<le> length (str_split TAB (strip raw)) \<longrightarrow>
             py_int (str_split TAB (strip raw) ! 2) = Some v \<longrightarrow> 0 \<le> v"
    and "list_all (\<lambda>p. 0 \<le> snd p) agg"
    and "read_stream py_int n agg stream = Inr d"
  shows "list_all (\<lambda>p. 0 \<le> snd p) d"
  using assms
proof (induction py_int n agg stream rule: read_stream.induct)
  case (1 py_int n agg)
  then show ?case by simp
next
  case (2 py_int n agg e rest)
  then show ?case by simp
next
  case (3 py_int n agg raw rest)
  have "list_all (\<lambda>p. 0 \<le> snd p) (process_line py_int n agg (strip raw))"
    using 3(3) 3(2) by (intro process_line_nonneg) auto
  then show ?case
    using 3 by auto
qed

lemma process_shard_nonneg:
  assumes "\<forall>stream raw v. net url = Inr stream \<longrightarrow> Inr raw \<in> set stream \<longrightarrow>
             3 \<le> length (str_split TAB (strip raw)) \<longrightarrow>
             py_int (str_split TAB (strip raw) ! 2) = Some v \<longrightarrow> 0 \<le> v"
  shows "list_all (\<lambda>p. 0 \<le> snd p) (process_shard py_int net url n)"
proof (cases "process_shard_try py_int net url n")
  case (Inl e)
  then show ?thesis by (simp add: process_shard_def)
next
  case (Inr d)
  then obtain stream where s: "net url = Inr stream"
    and r: "read_stream py_int n [] stream = Inr d"
    by (auto simp: process_shard_try_def split: sum.splits)
  have "list_all (\<lambda>p. 0 \<le> snd p) d"
    using assms s r by (intro read_stream_nonneg [of stream py_int "[]" n d]) auto
  with Inr show ?thesis by (simp add: process_shard_def)
qed

lemma count_of_merge:
  "count_of (merge agg sr) g =
     count_of agg g + sum_list (map snd (filter (\<lambda>p. fst p = g) sr))"
  unfolding merge_def
  by (induction sr arbitrary: agg) (auto simp: count_of_dict_add)

lemma sum_filtered_nonneg:
  "list_all (\<lambda>p. 0 \<le> snd p) sr \<Longrightarrow> (0::int) \<le> sum_list (map snd (filter P sr))"
  by (induction sr) auto

text \<open>
  C8 (amended). Merging a shard into the type aggregate adds, for every gram, the shard's
  counts for that gram to the gram's count: the count after the merge is the count before
  plus what the shard holds for the gram. When every match count that \<open>int\<close> parses from
  the third field of a line of the shard's stream is at least 0, the count after the merge is at least
  the count before, and so is the count in the shard map after every line.
\<close>

theorem merge_monotone_nonneg:
  assumes "\<forall>stream raw v. net url = Inr stream \<longrightarrow> Inr raw \<in> set stream \<longrightarrow>
             3 \<le> length (str_split TAB (strip raw)) \<longrightarrow>
             py_int (str_split TAB (strip raw) ! 2) = Some v \<longrightarrow> 0 \<le> v"
  shows "count_of (merge agg (process_shard py_int net url n)) g =
           count_of agg g
             + sum_list (map snd (filter (\<lambda>p. fst p = g) (process_shard py_int net url n)))
       \<and> count_of agg g \<le> count_of (merge agg (process_shard py_int net url n)) g
       \<and> (\<forall>stream raw a. net url = Inr stream \<longrightarrow> Inr raw \<in> set stream \<longrightarrow>
             count_of a g \<le> count_of (process_line py_int n a (strip raw)) g)"
proof -
  have "0 \<le> sum_list (map snd (filter (\<lambda>p. fst p = g) (process_shard py_int net url n)))"
    using assms by (intro sum_filtered_nonneg process_shard_nonneg)
  moreover have "count_of a g \<le> count_of (process_line py_int n a (strip raw)) g"
    if "net url = Inr stream" "Inr raw \<in> set stream" for stream raw a
    using that assms by (intro process_line_monotone) blast
  ultimately show ?thesis
    by (simp add: count_of_merge)
qed

theorem merge_monotone_nonneg_witness:
  "count_of [(''cat'', 4000)] ''cat'' = 4000
   \<and> count_of (merge [(''cat'', 4000)]
        (process_shard decimal (one_line (tsv [''cat'', ''1900'', ''6000'', ''100''])) ''u'' 1))
        ''cat'' = 10000"
proof -
  have h: "\<forall>stream raw v.
      one_line (tsv [''cat'', ''1900'', ''6000'', ''100'']) ''u'' = Inr stream
      \<longrightarrow> Inr raw \<in> set stream \<longrightarrow>
      3 \<le> length (str_split TAB (strip raw)) \<longrightarrow>
      decimal (str_split TAB (strip raw) ! 2) = Some v \<longrightarrow> 0 \<le> v"
    by (auto simp: one_line_def strip_def isspace_def decimal_def is_digit_def digit_value_def)
  have sr: "process_shard decimal (one_line (tsv [''cat'', ''1900'', ''6000'', ''100''])) ''u'' 1
      = [(''cat'', 6000)]"
    by (simp add: one_line_def process_shard_def process_shard_try_def process_line_def
        strip_def isspace_def is_clean_gram_def is_alpha_def is_letter_def decimal_def
        is_digit_def digit_value_def)
  note t = merge_monotone_nonneg [where net = "one_line (tsv [''cat'', ''1900'', ''6000'', ''100''])"
        and url = "''u''" and py_int = decimal and agg = "[(''cat'', 4000)]" and n = 1
        and g = "''cat''", OF h, unfolded sr, THEN conjunct1]
  show ?thesis
    unfolding sr using t by (simp add: merge_def count_of_def)
qed

text \<open>
  C8 as stated fails on a line whose match count is negative, which \<open>int\<close> accepts: the
  shard map holds \<open>-5\<close> for \<open>cat\<close>, and the merge lowers the aggregate's 6000 to 5995.
\<close>

theorem negative_count_counterexample:
  "count_of [(''cat'', 6000)] ''cat'' = 6000
   \<and> count_of (merge [(''cat'', 6000)]
        (process_shard decimal (one_line (tsv [''cat'', ''1900'', ''-5'', ''1''])) ''u'' 1))
        ''cat'' = 5995"
  by (simp add: one_line_def process_shard_def process_shard_try_def process_line_def
      strip_def isspace_def is_clean_gram_def is_alpha_def is_letter_def decimal_def
      is_digit_def digit_value_def merge_def count_of_def)

section \<open>The run of main\<close>

lemma type_name_1_5:
  "type_name 1 = ''1gram''" "type_name 2 = ''2gram''" "type_name 3 = ''3gram''"
  "type_name 4 = ''4gram''" "type_name 5 = ''5gram''"
  by (simp_all add: type_name_def format_int_def digits_small)

lemma top_counts_lookup:
  "n \<in> {1, 2, 3, 4, 5} \<Longrightarrow> map_of TOP_COUNTS (format_int n @ ''gram'') = Some (cap n)"
  by (auto simp: TOP_COUNTS_def cap_def format_int_def digits_small)

lemma process_type_eq:
  assumes "n \<in> {1, 2, 3, 4, 5}"
  shows "process_type py_int out n (w, words_top, phrases) =
     Inr (after_type py_int out n w,
          if n = 1 then top_results py_int out n w else words_top,
          if n = 1 then phrases else phrases @ top_results py_int out n w)"
  using top_counts_lookup [OF assms]
  by (simp add: process_type_def after_type_def top_results_def shard_loop_def top_file_def
      type_name_def Let_def case_prod_unfold)

lemma process_types_eq:
  "process_types py_int out [1, 2, 3, 4, 5] (w, [], []) =
     Inr (world_after py_int out w 5, ranked py_int out w 1,
          ranked py_int out w 2 @ ranked py_int out w 3 @ ranked py_int out w 4
            @ ranked py_int out w 5)"
  by (simp add: process_type_eq ranked_def eval_nat_numeral)

lemma main_eq:
  assumes "configured out"
  shows "main py_int out w =
     Inr (finish out (world_after py_int out w 5, ranked py_int out w 1,
          ranked py_int out w 2 @ ranked py_int out w 3 @ ranked py_int out w 4
            @ ranked py_int out w 5))"
  using assms
  by (auto simp: main_def configured_def process_types_eq simp del: process_types.simps
      split: option.splits)


section \<open>The calls of the shard loop\<close>

lemma log_call_simps [simp]:
  "trace (log_call ev w) = trace w @ [ev]"
  "ngram_shards (log_call ev w) = ngram_shards w"
  "bucket (log_call ev w) = bucket w"
  "job_completed (log_call ev w) = job_completed w"
  by (simp_all add: log_call_def)

lemma upload_simps [simp]:
  "trace (upload_to_storage out f p w) = trace w @ [Upload f p]"
  "ngram_shards (upload_to_storage out f p w) = ngram_shards w"
  "job_completed (upload_to_storage out f p w) = job_completed w"
  by (simp_all add: upload_to_storage_def Let_def)

lemma update_checkpoint_simps [simp]:
  "trace (update_checkpoint out t i url w) = trace w @ [Checkpoint t i]"
  "job_completed (update_checkpoint out t i url w) = job_completed w"
  "bucket (update_checkpoint out t i url w) = bucket w"
  by (simp_all add: update_checkpoint_def Let_def)

lemma is_done_log_call [simp]: "is_done (log_call ev w) k = is_done w k"
  by (simp add: is_done_def)

lemma is_done_upload [simp]: "is_done (upload_to_storage out f p w) k = is_done w k"
  by (simp add: is_done_def)

lemma update_checkpoint_mono: "is_done w k \<Longrightarrow> is_done (update_checkpoint out t i url w) k"
  by (simp add: is_done_def update_checkpoint_def Let_def)

lemma update_checkpoint_marks:
  "\<not> set_fails out (doc_id t i) \<Longrightarrow> is_done (update_checkpoint out t i url w) (doc_id t i)"
  by (simp add: is_done_def update_checkpoint_def Let_def)

lemma is_shard_done_iff:
  "is_shard_done out w t i = (\<not> get_fails out (doc_id t i) \<and> is_done w (doc_id t i))"
  by (simp add: is_shard_done_def is_done_def)

lemma process_url_eq:
  "process_url py_int out n (w, agg) url =
     (if is_shard_done out w (type_name n) (shard_id_of url)
      then (log_call (Skip (type_name n) (shard_id_of url)) w, agg)
      else (update_checkpoint out (type_name n) (shard_id_of url) url
              (log_call (Merge (type_name n) (shard_id_of url))
                 (upload_to_storage out (shard_file n url)
                    (Shard_map (survivors (process_shard py_int (fetch out) url n)))
                    (log_call (Process url) w))),
            merge agg (process_shard py_int (fetch out) url n)))"
  by (simp add: process_url_def Let_def type_name_def shard_file_def survivors_def
      FREQUENCY_THRESHOLD_def)

lemma process_url_trace:
  "trace (fst (process_url py_int out n s url)) = trace (fst s) @ url_events py_int out n (fst s) url"
  by (cases s) (simp add: process_url_eq url_events_def)

lemma process_url_job [simp]:
  "job_completed (fst (process_url py_int out n s url)) = job_completed (fst s)"
  by (cases s) (simp add: process_url_eq)

lemma process_url_mono:
  "is_done (fst s) k \<Longrightarrow> is_done (fst (process_url py_int out n s url)) k"
  by (cases s) (simp add: process_url_eq update_checkpoint_mono)

lemma process_url_marks:
  assumes "\<not> set_fails out (doc_id (type_name n) (shard_id_of url))"
  shows "is_done (fst (process_url py_int out n s url)) (doc_id (type_name n) (shard_id_of url))"
  using assms
  by (cases s) (simp add: process_url_eq update_checkpoint_marks is_shard_done_iff)

lemma foldl_trace:
  "trace (fst (foldl (process_url py_int out n) s urls))
     = trace (fst s) @ loop_events py_int out n s urls"
  by (induction urls arbitrary: s) (simp_all add: process_url_trace)

lemma foldl_job [simp]:
  "job_completed (fst (foldl (process_url py_int out n) s urls)) = job_completed (fst s)"
  by (induction urls arbitrary: s) simp_all

lemma foldl_mono:
  "is_done (fst s) k \<Longrightarrow> is_done (fst (foldl (process_url py_int out n) s urls)) k"
  by (induction urls arbitrary: s) (simp_all add: process_url_mono)

lemma foldl_marks:
  assumes "url \<in> set urls" "\<not> set_fails out (doc_id (type_name n) (shard_id_of url))"
  shows "is_done (fst (foldl (process_url py_int out n) s urls))
           (doc_id (type_name n) (shard_id_of url))"
  using assms
proof (induction urls arbitrary: s)
  case Nil
  then show ?case by simp
next
  case (Cons u urls)
  show ?case
  proof (cases "url = u")
    case True
    then show ?thesis
      using Cons.prems(2) by (simp add: foldl_mono process_url_marks)
  next
    case False
    then show ?thesis
      using Cons by simp
  qed
qed

lemma merges_of_append [simp]: "merges_of (a @ b) = merges_of a @ merges_of b"
  by (induction a rule: merges_of.induct) simp_all


lemma shard_event_mono: "shard_event n U ev \<Longrightarrow> U \<subseteq> V \<Longrightarrow> shard_event n V ev"
  by (cases ev) auto

lemma url_events_shard: "list_all (shard_event n {url}) (url_events py_int out n w url)"
  by (simp add: url_events_def)

lemma loop_events_shard:
  "list_all (shard_event n (set urls)) (loop_events py_int out n s urls)"
proof (induction urls arbitrary: s)
  case Nil
  show ?case by simp
next
  case (Cons u urls)
  have a: "list_all (shard_event n (set (u # urls))) (url_events py_int out n (fst s) u)"
    using url_events_shard [of n u py_int out "fst s"]
    by (auto simp: list_all_iff intro: shard_event_mono)
  have b: "list_all (shard_event n (set (u # urls)))
      (loop_events py_int out n (process_url py_int out n s u) urls)"
    using Cons [of "process_url py_int out n s u"]
    by (auto simp: list_all_iff intro: shard_event_mono)
  show ?case using a b by simp
qed



section \<open>The calls of a run\<close>

lemma after_type_trace:
  "trace (after_type py_int out n w) = trace w @ type_events py_int out n w"
  by (simp add: after_type_def type_events_def shard_loop_def foldl_trace)

lemma after_type_job [simp]: "job_completed (after_type py_int out n w) = job_completed w"
  by (simp add: after_type_def shard_loop_def)

lemma after_type_mono: "is_done w k \<Longrightarrow> is_done (after_type py_int out n w) k"
  by (simp add: after_type_def shard_loop_def foldl_mono)

lemma after_type_marks:
  assumes "url \<in> set (build_shard_urls n)"
    and "\<not> set_fails out (doc_id (type_name n) (shard_id_of url))"
  shows "is_done (after_type py_int out n w) (doc_id (type_name n) (shard_id_of url))"
  using assms by (simp add: after_type_def shard_loop_def foldl_marks)

lemma world_after_trace:
  "trace (world_after py_int out w k) = trace w @ passes_events py_int out w k"
  by (induction k) (simp_all add: after_type_trace)

lemma world_after_job [simp]: "job_completed (world_after py_int out w k) = job_completed w"
  by (induction k) simp_all

lemma world_after_mono: "is_done w d \<Longrightarrow> is_done (world_after py_int out w k) d"
  by (induction k) (simp_all add: after_type_mono)

lemma world_after_marks:
  assumes "1 \<le> j" "j \<le> k" "url \<in> set (build_shard_urls (int j))"
    and "\<not> set_fails out (doc_id (type_name (int j)) (shard_id_of url))"
  shows "is_done (world_after py_int out w k) (doc_id (type_name (int j)) (shard_id_of url))"
  using assms
proof (induction k)
  case 0
  then show ?case by simp
next
  case (Suc k)
  show ?case
  proof (cases "j = Suc k")
    case True
    then show ?thesis
      using Suc.prems after_type_marks [of url "int (Suc k)" out py_int "world_after py_int out w k"]
      by simp
  next
    case False
    then have "is_done (world_after py_int out w k) (doc_id (type_name (int j)) (shard_id_of url))"
      using Suc by simp
    then show ?thesis by (simp add: after_type_mono)
  qed
qed

lemma finish_trace:
  "trace (finish out (w, words_top, phrases)) = trace w @ finish_events words_top phrases"
  by (simp add: finish_def finish_events_def update_job_status_def Let_def words_file_def
      phrases_file_def)

lemma finish_mono: "is_done w d \<Longrightarrow> is_done (finish out (w, words_top, phrases)) d"
  by (simp add: finish_def update_job_status_def Let_def is_done_def upload_to_storage_def
      log_call_def)

lemma finish_job:
  "job_completed (finish out (w, words_top, phrases)) = (job_completed w \<or> \<not> job_set_fails out)"
  by (simp add: finish_def update_job_status_def Let_def)

lemma main_result:
  assumes "configured out"
  shows "main py_int out w =
     Inr (finish out (world_after py_int out w 5, words_top_of py_int out w,
            phrases_top_of py_int out w))"
  using main_eq [OF assms] by (simp add: words_top_of_def phrases_top_of_def)

lemma run_events_eq:
  assumes "configured out"
  shows "run_events py_int out w =
     passes_events py_int out w 5
       @ finish_events (words_top_of py_int out w) (phrases_top_of py_int out w)"
  by (simp add: run_events_def main_result [OF assms] finish_trace world_after_trace)



lemma type_events_shard_or_top:
  assumes "ev \<in> set (type_events py_int out n w)"
  shows "shard_event n (set (build_shard_urls n)) ev
       \<or> ev = Upload (top_file n) (Ranked (top_results py_int out n w))"
  using assms loop_events_shard [of n "build_shard_urls n" py_int out "(w, [])"]
  by (auto simp: type_events_def list_all_iff)

lemma top_upload_in_type_events:
  "Upload (top_file n) (Ranked (top_results py_int out n w)) \<in> set (type_events py_int out n w)"
  by (simp add: type_events_def)

lemma passes_events_cases:
  assumes "ev \<in> set (passes_events py_int out w k)"
  shows "\<exists>j. 1 \<le> j \<and> j \<le> k
     \<and> (shard_event (int j) (set (build_shard_urls (int j))) ev
        \<or> ev = Upload (top_file (int j)) (Ranked (ranked py_int out w j)))"
  using assms
proof (induction k)
  case 0
  then show ?case by simp
next
  case (Suc k)
  from Suc.prems have "ev \<in> set (passes_events py_int out w k)
      \<or> ev \<in> set (type_events py_int out (int (Suc k)) (world_after py_int out w k))"
    by simp
  then show ?case
  proof
    assume "ev \<in> set (passes_events py_int out w k)"
    then obtain j where "1 \<le> j" "j \<le> k"
      "shard_event (int j) (set (build_shard_urls (int j))) ev
        \<or> ev = Upload (top_file (int j)) (Ranked (ranked py_int out w j))"
      using Suc.IH by blast
    then show ?thesis
      by (intro exI [of _ j]) simp
  next
    assume "ev \<in> set (type_events py_int out (int (Suc k)) (world_after py_int out w k))"
    then have "shard_event (int (Suc k)) (set (build_shard_urls (int (Suc k)))) ev
        \<or> ev = Upload (top_file (int (Suc k))) (Ranked (ranked py_int out w (Suc k)))"
      using type_events_shard_or_top [of ev py_int out "int (Suc k)" "world_after py_int out w k"]
      by (simp add: ranked_def)
    then show ?thesis
      by (intro exI [of _ "Suc k"]) simp
  qed
qed

lemma top_upload_in_passes:
  assumes "1 \<le> j" "j \<le> k"
  shows "Upload (top_file (int j)) (Ranked (ranked py_int out w j))
           \<in> set (passes_events py_int out w k)"
  using assms
proof (induction k)
  case 0
  then show ?case by simp
next
  case (Suc k)
  show ?case
  proof (cases "j = Suc k")
    case True
    then show ?thesis
      using top_upload_in_type_events [of "int (Suc k)" py_int out "world_after py_int out w k"]
      by (simp add: ranked_def)
  next
    case False
    then show ?thesis using Suc by simp
  qed
qed

lemma no_job_status_in_passes: "Job_status \<notin> set (passes_events py_int out w k)"
  using passes_events_cases [of Job_status py_int out w k] by auto

section \<open>Facts about the inputs of the examples\<close>

lemma url_a_in_catalog: "url_a \<in> set (build_shard_urls 1)"
  by (simp add: build_shard_urls_1 letters_def url_a_def base_url_def format_int_def digits_small)

lemma shard_id_of_url_a: "shard_id_of url_a = ''googlebooks-eng-all-1gram-20120701-a''"
proof -
  have "url_a = base_url 1 @ ''a'' @ ''.gz''"
    by (simp add: url_a_def base_url_def format_int_def digits_small)
  then have "shard_id_of url_a = shard_stem 1 @ ''a''"
    using shard_id_of_url [of "''a''" 1] by simp
  then show ?thesis
    by (simp add: shard_stem_def format_int_def digits_small)
qed

lemma doc_id_url_a:
  "doc_id (type_name 1) (shard_id_of url_a) = ''1gram_googlebooks-eng-all-1gram-20120701-a''"
  by (simp add: doc_id_def type_name_1_5 shard_id_of_url_a)

lemma configured_offline: "configured offline"
  by (simp add: configured_def offline_def)

section \<open>Skipped shards and merges\<close>




lemma merges_of_finish_events [simp]: "merges_of (finish_events a b) = []"
  by (simp add: finish_events_def)

lemma type_name_int_inject:
  assumes "1 \<le> i" "i \<le> 5" "1 \<le> j" "j \<le> 5" "type_name (int i) = type_name (int j)"
  shows "i = j"
proof -
  have i: "i \<in> {1, 2, 3, 4, 5}" and j: "j \<in> {1, 2, 3, 4, 5}"
    using assms by auto
  show ?thesis
    using i j assms(5) by (auto simp: type_name_1_5)
qed






section \<open>Shards whose stream fails\<close>

lemma process_shard_failed:
  "process_shard_try py_int net url n = Inl e \<Longrightarrow> process_shard py_int net url n = []"
  by (simp add: process_shard_def)

lemma merge_empty [simp]: "merge agg [] = agg"
  by (simp add: merge_def)

lemma main_marks:
  assumes "configured out" "n \<in> {1, 2, 3, 4, 5}" "url \<in> set (build_shard_urls n)"
    and "\<not> set_fails out (doc_id (type_name n) (shard_id_of url))"
  shows "\<exists>w'. main py_int out w = Inr w' \<and> is_done w' (doc_id (type_name n) (shard_id_of url))"
proof -
  from assms(2) have n: "n = int (nat n)" "1 \<le> nat n" "nat n \<le> 5"
    by auto
  have "is_done (world_after py_int out w 5) (doc_id (type_name (int (nat n))) (shard_id_of url))"
    using n assms(3,4) by (intro world_after_marks) simp_all
  then have "is_done (world_after py_int out w 5) (doc_id (type_name n) (shard_id_of url))"
    using n(1) by simp
  then show ?thesis
    by (simp add: main_result [OF assms(1)] finish_mono)
qed

text \<open>
  C1 (amended). When processing a shard's stream fails, \<open>process_shard\<close> returns the
  empty map and the orchestrator goes on as for a shard without grams: in a turn that
  does not skip the shard it leaves the aggregate as it is and writes the shard's
  checkpoint as \<open>done\<close>. Unless that write fails, the checkpoint is \<open>done\<close> after the run,
  and a later run that can read it skips the shard.
\<close>

theorem failed_shard_marked_done:
  assumes "configured out" "n \<in> {1, 2, 3, 4, 5}" "url \<in> set (build_shard_urls n)"
    and "process_shard_try py_int (fetch out) url n = Inl e"
    and "\<not> set_fails out (doc_id (type_name n) (shard_id_of url))"
  shows "process_shard py_int (fetch out) url n = []
     \<and> (\<forall>w0 agg. \<not> is_shard_done out w0 (type_name n) (shard_id_of url) \<longrightarrow>
           Checkpoint (type_name n) (shard_id_of url) \<in> set (url_events py_int out n w0 url)
         \<and> snd (process_url py_int out n (w0, agg) url) = agg
         \<and> is_done (fst (process_url py_int out n (w0, agg) url))
              (doc_id (type_name n) (shard_id_of url)))
     \<and> (\<exists>w'. main py_int out w = Inr w'
           \<and> is_done w' (doc_id (type_name n) (shard_id_of url))
           \<and> (\<forall>out'. \<not> get_fails out' (doc_id (type_name n) (shard_id_of url)) \<longrightarrow>
                 is_shard_done out' w' (type_name n) (shard_id_of url)))"
proof -
  have empty: "process_shard py_int (fetch out) url n = []"
    using assms(4) by (rule process_shard_failed)
  have turn: "Checkpoint (type_name n) (shard_id_of url) \<in> set (url_events py_int out n w0 url)
         \<and> snd (process_url py_int out n (w0, agg) url) = agg
         \<and> is_done (fst (process_url py_int out n (w0, agg) url))
              (doc_id (type_name n) (shard_id_of url))"
    if "\<not> is_shard_done out w0 (type_name n) (shard_id_of url)" for w0 agg
    using that assms(5) process_url_marks [of out n url py_int "(w0, agg)"]
    by (simp add: url_events_def process_url_eq empty)
  obtain w' where w': "main py_int out w = Inr w'"
    "is_done w' (doc_id (type_name n) (shard_id_of url))"
    using main_marks [OF assms(1,2,3,5)] by blast
  then have "\<forall>out'. \<not> get_fails out' (doc_id (type_name n) (shard_id_of url)) \<longrightarrow>
      is_shard_done out' w' (type_name n) (shard_id_of url)"
    by (simp add: is_shard_done_iff)
  with empty turn w' show ?thesis by blast
qed

theorem failed_shard_marked_done_witness:
  "configured offline \<and> url_a \<in> set (build_shard_urls 1)
   \<and> process_shard_try decimal (fetch offline) url_a 1 = Inl Network_error
   \<and> \<not> set_fails offline (doc_id (type_name 1) (shard_id_of url_a))
   \<and> process_shard decimal (fetch offline) url_a 1 = []
   \<and> (case main decimal offline empty_world of
         Inl e \<Rightarrow> False
       | Inr w' \<Rightarrow> is_shard_done offline w' (type_name 1) (shard_id_of url_a))"
proof -
  have f: "process_shard_try decimal (fetch offline) url_a 1 = Inl Network_error"
    by (simp add: process_shard_try_def offline_def)
  have s: "\<not> set_fails offline (doc_id (type_name 1) (shard_id_of url_a))"
    by (simp add: offline_def)
  have g: "\<not> get_fails offline (doc_id (type_name 1) (shard_id_of url_a))"
    by (simp add: offline_def)
  have one: "(1::int) \<in> {1, 2, 3, 4, 5}" by simp
  note t = failed_shard_marked_done [OF configured_offline one url_a_in_catalog f s,
      where w = empty_world]
  from t have "process_shard decimal (fetch offline) url_a 1 = []"
    by blast
  moreover from t g obtain w' where "main decimal offline empty_world = Inr w'"
    "is_shard_done offline w' (type_name 1) (shard_id_of url_a)"
    by blast
  ultimately show ?thesis
    using configured_offline url_a_in_catalog f s by simp
qed

text \<open>
  C1 as stated fails in a first run in which every request fails: processing the first
  shard of order 1 raises, its checkpoint is not there before the run, and it is \<open>done\<close>
  after it.
\<close>

theorem failed_shard_counterexample:
  "process_shard_try decimal (fetch offline) url_a 1 = Inl Network_error
   \<and> \<not> is_done empty_world ''1gram_googlebooks-eng-all-1gram-20120701-a''
   \<and> (case main decimal offline empty_world of
         Inl e \<Rightarrow> False
       | Inr w' \<Rightarrow> is_done w' ''1gram_googlebooks-eng-all-1gram-20120701-a'')"
proof -
  have f: "process_shard_try decimal (fetch offline) url_a 1 = Inl Network_error"
    by (simp add: process_shard_try_def offline_def)
  have before: "\<not> is_done empty_world ''1gram_googlebooks-eng-all-1gram-20120701-a''"
    by (simp add: is_done_def empty_world_def)
  have s: "\<not> set_fails offline (doc_id (type_name 1) (shard_id_of url_a))"
    by (simp add: offline_def)
  have one: "(1::int) \<in> {1, 2, 3, 4, 5}" by simp
  obtain w' where "main decimal offline empty_world = Inr w'"
    "is_done w' (doc_id (type_name 1) (shard_id_of url_a))"
    using main_marks [OF configured_offline one url_a_in_catalog s] by blast
  then have "case main decimal offline empty_world of
         Inl e \<Rightarrow> False
       | Inr w' \<Rightarrow> is_done w' ''1gram_googlebooks-eng-all-1gram-20120701-a''"
    by (simp add: doc_id_url_a)
  with f before show ?thesis by blast
qed

section \<open>Failures swallowed by process_shard\<close>














section \<open>The paths of the artifacts\<close>

lemma filtered_not_top: "xs @ ''_filtered.json'' \<noteq> ys @ ''_top.json''"
proof
  assume "xs @ ''_filtered.json'' = ys @ ''_top.json''"
  then have "rev (xs @ ''_filtered.json'') = rev (ys @ ''_top.json'')"
    by (rule arg_cong)
  then show False by simp
qed

lemma gram_not_words: "xs @ ''gram'' \<noteq> ''words''" "xs @ ''gram'' \<noteq> ''phrases''"
proof -
  have "rev (xs @ ''gram'') \<noteq> rev ''words''" "rev (xs @ ''gram'') \<noteq> rev ''phrases''"
    by simp_all
  then show "xs @ ''gram'' \<noteq> ''words''" "xs @ ''gram'' \<noteq> ''phrases''"
    by blast+
qed

lemma shard_file_not_top: "shard_file n u \<noteq> top_file m"
proof
  assume "shard_file n u = top_file m"
  then have "(type_name n @ ''_'' @ shard_id_of u) @ ''_filtered.json'' = type_name m @ ''_top.json''"
    by (simp add: shard_file_def top_file_def)
  then show False
    by (rule filtered_not_top [THEN notE])
qed

lemma shard_file_not_consolidated:
  "shard_file n u \<noteq> words_file" "shard_file n u \<noteq> phrases_file"
proof -
  have "(type_name n @ ''_'' @ shard_id_of u) @ ''_filtered.json'' \<noteq> ''words'' @ ''_top.json''"
    "(type_name n @ ''_'' @ shard_id_of u) @ ''_filtered.json'' \<noteq> ''phrases'' @ ''_top.json''"
    by (rule filtered_not_top)+
  then show "shard_file n u \<noteq> words_file" "shard_file n u \<noteq> phrases_file"
    by (simp_all add: shard_file_def words_file_def phrases_file_def)
qed

lemma top_file_not_consolidated:
  "top_file n \<noteq> words_file" "top_file n \<noteq> phrases_file"
  using gram_not_words [of "format_int n"]
  by (simp_all add: top_file_def words_file_def phrases_file_def type_name_def)

lemma top_file_inject:
  assumes "1 \<le> i" "i \<le> 5" "1 \<le> j" "j \<le> 5" "top_file (int i) = top_file (int j)"
  shows "i = j"
proof -
  from assms(5) have "type_name (int i) = type_name (int j)"
    by (simp add: top_file_def)
  with assms(1-4) show ?thesis by (rule type_name_int_inject)
qed

lemma shard_event_upload:
  "shard_event n U (Upload f p) \<Longrightarrow> \<exists>u. f = shard_file n u"
  by auto

lemma passes_upload_cases:
  assumes "Upload f p \<in> set (passes_events py_int out w k)"
  shows "(\<exists>n u. f = shard_file n u)
       \<or> (\<exists>j. 1 \<le> j \<and> j \<le> k \<and> f = top_file (int j) \<and> p = Ranked (ranked py_int out w j))"
proof -
  obtain j where j: "1 \<le> j" "j \<le> k"
    "shard_event (int j) (set (build_shard_urls (int j))) (Upload f p)
        \<or> Upload f p = Upload (top_file (int j)) (Ranked (ranked py_int out w j))"
    using passes_events_cases [OF assms] by blast
  from j(3) show ?thesis
  proof
    assume "shard_event (int j) (set (build_shard_urls (int j))) (Upload f p)"
    then show ?thesis using shard_event_upload by blast
  next
    assume "Upload f p = Upload (top_file (int j)) (Ranked (ranked py_int out w j))"
    then show ?thesis using j(1,2) by auto
  qed
qed

lemma no_consolidated_in_passes:
  "Upload words_file p \<notin> set (passes_events py_int out w k)"
  "Upload phrases_file p \<notin> set (passes_events py_int out w k)"
  using passes_upload_cases [of words_file p py_int out w k]
    passes_upload_cases [of phrases_file p py_int out w k]
    shard_file_not_consolidated top_file_not_consolidated
  by metis+

lemma top_upload_payload:
  assumes "1 \<le> j" "j \<le> 5" "k \<le> 5"
    and "Upload (top_file (int j)) p \<in> set (passes_events py_int out w k)"
  shows "p = Ranked (ranked py_int out w j)"
proof -
  from passes_upload_cases [OF assms(4)]
  obtain i where "1 \<le> i" "i \<le> k" "top_file (int j) = top_file (int i)"
    "p = Ranked (ranked py_int out w i)"
    using shard_file_not_top by metis
  moreover from this assms have "j = i"
    by (intro top_file_inject) auto
  ultimately show ?thesis by simp
qed

lemma finish_events_uploads:
  "Upload f p \<in> set (finish_events a b) \<longleftrightarrow>
     (f = words_file \<and> a \<noteq> [] \<and> p = Ranked a) \<or> (f = phrases_file \<and> b \<noteq> [] \<and> p = Ranked b)"
  by (auto simp: finish_events_def)

lemma words_not_phrases: "words_file \<noteq> phrases_file"
  by (simp add: words_file_def phrases_file_def)

section \<open>The uploads of a run\<close>

lemma run_upload_iff:
  assumes "configured out"
  shows "Upload f p \<in> set (run_events py_int out w) \<longleftrightarrow>
     Upload f p \<in> set (passes_events py_int out w 5)
     \<or> (f = words_file \<and> words_top_of py_int out w \<noteq> []
          \<and> p = Ranked (words_top_of py_int out w))
     \<or> (f = phrases_file \<and> phrases_top_of py_int out w \<noteq> []
          \<and> p = Ranked (phrases_top_of py_int out w))"
  by (simp add: run_events_eq [OF assms] finish_events_uploads)

lemma run_top_upload:
  assumes "configured out" "1 \<le> j" "j \<le> 5"
  shows "Upload (top_file (int j)) p \<in> set (run_events py_int out w)
     \<longleftrightarrow> p = Ranked (ranked py_int out w j)"
proof
  assume "Upload (top_file (int j)) p \<in> set (run_events py_int out w)"
  then have "Upload (top_file (int j)) p \<in> set (passes_events py_int out w 5)"
    using top_file_not_consolidated by (simp add: run_upload_iff [OF assms(1)])
  then show "p = Ranked (ranked py_int out w j)"
    using assms(2,3) by (intro top_upload_payload [of j 5]) simp_all
next
  assume "p = Ranked (ranked py_int out w j)"
  then show "Upload (top_file (int j)) p \<in> set (run_events py_int out w)"
    using top_upload_in_passes [OF assms(2,3), of py_int out w]
    by (simp add: run_upload_iff [OF assms(1)])
qed

lemma run_words_upload:
  assumes "configured out"
  shows "Upload words_file p \<in> set (run_events py_int out w)
     \<longleftrightarrow> words_top_of py_int out w \<noteq> [] \<and> p = Ranked (words_top_of py_int out w)"
  using words_not_phrases
  by (simp add: run_upload_iff [OF assms] no_consolidated_in_passes)

lemma run_phrases_upload:
  assumes "configured out"
  shows "Upload phrases_file p \<in> set (run_events py_int out w)
     \<longleftrightarrow> phrases_top_of py_int out w \<noteq> [] \<and> p = Ranked (phrases_top_of py_int out w)"
  using words_not_phrases
  by (auto simp: run_upload_iff [OF assms] no_consolidated_in_passes)

text \<open>
  C10. In a run with a bucket, the ranked output of every gram order is uploaded to
  \<open>{n}gram_top.json\<close> whatever it holds, the empty list included. \<open>words_top.json\<close> is
  uploaded exactly when the ranked output of order 1 is not empty, and
  \<open>phrases_top.json\<close> exactly when the concatenated ranked outputs of the orders 2 to 5
  are not empty; otherwise the run makes no upload to that path at all.
\<close>

theorem consolidated_only_when_nonempty:
  assumes "configured out"
  shows "(\<forall>j \<in> {1, 2, 3, 4, 5}.
            Upload (top_file (int j)) (Ranked (ranked py_int out w j))
              \<in> set (run_events py_int out w)
          \<and> (ranked py_int out w j = [] \<longrightarrow>
                Upload (top_file (int j)) (Ranked []) \<in> set (run_events py_int out w)))
       \<and> (\<forall>p. Upload words_file p \<in> set (run_events py_int out w) \<longleftrightarrow>
                ranked py_int out w 1 \<noteq> [] \<and> p = Ranked (ranked py_int out w 1))
       \<and> (\<forall>p. Upload phrases_file p \<in> set (run_events py_int out w) \<longleftrightarrow>
                ranked py_int out w 2 @ ranked py_int out w 3 @ ranked py_int out w 4
                  @ ranked py_int out w 5 \<noteq> []
                \<and> p = Ranked (ranked py_int out w 2 @ ranked py_int out w 3
                               @ ranked py_int out w 4 @ ranked py_int out w 5))
       \<and> top_file 1 = ''data/google-ngram/1gram_top.json''
       \<and> words_file = ''data/google-ngram/words_top.json''
       \<and> phrases_file = ''data/google-ngram/phrases_top.json''"
proof -
  have tops: "Upload (top_file (int j)) (Ranked (ranked py_int out w j))
      \<in> set (run_events py_int out w)" if "j \<in> {1, 2, 3, 4, 5}" for j :: nat
    using that run_top_upload [OF assms, of j "Ranked (ranked py_int out w j)" py_int w]
    by auto
  have empties: "Upload (top_file (int j)) (Ranked []) \<in> set (run_events py_int out w)"
    if "j \<in> {1, 2, 3, 4, 5}" "ranked py_int out w j = []" for j :: nat
    using tops [OF that(1)] that(2) by simp
  have words: "Upload words_file p \<in> set (run_events py_int out w) \<longleftrightarrow>
      ranked py_int out w 1 \<noteq> [] \<and> p = Ranked (ranked py_int out w 1)" for p
    using run_words_upload [OF assms, of p py_int w] by (simp add: words_top_of_def)
  have phrases: "Upload phrases_file p \<in> set (run_events py_int out w) \<longleftrightarrow>
      ranked py_int out w 2 @ ranked py_int out w 3 @ ranked py_int out w 4
        @ ranked py_int out w 5 \<noteq> []
      \<and> p = Ranked (ranked py_int out w 2 @ ranked py_int out w 3
                     @ ranked py_int out w 4 @ ranked py_int out w 5)" for p
    using run_phrases_upload [OF assms, of p py_int w] by (simp add: phrases_top_of_def)
  have paths: "top_file 1 = ''data/google-ngram/1gram_top.json''"
    "words_file = ''data/google-ngram/words_top.json''"
    "phrases_file = ''data/google-ngram/phrases_top.json''"
    by (simp_all add: top_file_def words_file_def phrases_file_def out_prefix_def type_name_1_5)
  show ?thesis
    using tops empties words phrases paths by blast
qed

section \<open>Two runs worked out\<close>

lemma configured_cat_env: "configured cat_env"
  by (simp add: configured_def cat_env_def)

lemma update_checkpoint_done_only:
  "is_done (update_checkpoint out t i url w) k \<Longrightarrow> is_done w k \<or> k = doc_id t i"
  by (auto simp: is_done_def update_checkpoint_def Let_def split: if_splits)

lemma process_url_done_only:
  "is_done (fst (process_url py_int out n s u)) k
   \<Longrightarrow> is_done (fst s) k \<or> k = doc_id (type_name n) (shard_id_of u)"
  by (cases s) (auto simp: process_url_eq split: if_splits dest: update_checkpoint_done_only)

lemma doc_id_inject: "doc_id t i = doc_id t i' \<Longrightarrow> i = i'"
  by (simp add: doc_id_def)

lemma foldl_all_processed:
  assumes "distinct (map shard_id_of urls)"
    and "\<forall>u \<in> set urls. \<not> is_done (fst s) (doc_id (type_name n) (shard_id_of u))"
  shows "snd (foldl (process_url py_int out n) s urls)
       = foldl (\<lambda>a u. merge a (process_shard py_int (fetch out) u n)) (snd s) urls"
  using assms
proof (induction urls arbitrary: s)
  case Nil
  show ?case by simp
next
  case (Cons u urls)
  obtain w agg where s: "s = (w, agg)" by (cases s)
  have not_done: "\<not> is_shard_done out w (type_name n) (shard_id_of u)"
    using Cons.prems(2) s by (simp add: is_shard_done_iff)
  then have step: "snd (process_url py_int out n s u) = merge agg (process_shard py_int (fetch out) u n)"
    by (simp add: s process_url_eq)
  have rest: "\<not> is_done (fst (process_url py_int out n s u)) (doc_id (type_name n) (shard_id_of u'))"
    if u': "u' \<in> set urls" for u'
  proof
    assume "is_done (fst (process_url py_int out n s u)) (doc_id (type_name n) (shard_id_of u'))"
    then have "is_done (fst s) (doc_id (type_name n) (shard_id_of u'))
        \<or> doc_id (type_name n) (shard_id_of u') = doc_id (type_name n) (shard_id_of u)"
      by (rule process_url_done_only)
    then have "shard_id_of u' = shard_id_of u"
      using Cons.prems(2) u' by (auto dest: doc_id_inject)
    with Cons.prems(1) u' show False by (auto simp: image_iff)
  qed
  have "snd (foldl (process_url py_int out n) (process_url py_int out n s u) urls)
       = foldl (\<lambda>a u. merge a (process_shard py_int (fetch out) u n))
           (snd (process_url py_int out n s u)) urls"
    using Cons.prems(1) rest by (intro Cons.IH) auto
  then show ?case
    using step by (simp add: s)
qed

lemma foldl_nothing_merged:
  assumes "\<forall>u. process_shard py_int (fetch out) u n = []"
  shows "snd (foldl (process_url py_int out n) s urls) = snd s"
proof (induction urls arbitrary: s)
  case Nil
  show ?case by simp
next
  case (Cons u urls)
  have "snd (process_url py_int out n s u) = snd s"
    using assms by (cases s) (simp add: process_url_eq)
  then show ?case
    using Cons [of "process_url py_int out n s u"] by simp
qed

lemma filter_and_rank_Nil [simp]: "filter_and_rank [] n k = []"
  by (simp add: filter_and_rank_def slice_to_def sorted_reverse_def)

lemma top_results_nothing:
  assumes "\<forall>u. process_shard py_int (fetch out) u n = []"
  shows "top_results py_int out n w = []"
  by (simp add: top_results_def shard_loop_def foldl_nothing_merged [OF assms])

lemma merge_single: "merge [(g, x)] [(g, c)] = [(g, x + c)]"
  by (simp add: merge_def)

lemma foldl_merge_const:
  "foldl (\<lambda>a u. merge a [(g, c)]) [(g, x)] urls = [(g, x + c * int (length urls))]"
  by (induction urls arbitrary: x) (simp_all add: merge_single algebra_simps)

lemma merge_first: "merge [] [(g, c)] = [(g, c)]"
  by (simp add: merge_def)

lemma foldl_merge_const_Nil:
  assumes "urls \<noteq> []"
  shows "foldl (\<lambda>a u. merge a [(g, c)]) [] urls = [(g, c * int (length urls))]"
proof -
  obtain u rest where urls: "urls = u # rest"
    using assms by (cases urls) auto
  have "foldl (\<lambda>a u. merge a [(g, c)]) [] urls = foldl (\<lambda>a u. merge a [(g, c)]) [(g, c)] rest"
    by (simp only: urls foldl_Cons merge_first)
  also have "\<dots> = [(g, c + c * int (length rest))]"
    by (rule foldl_merge_const)
  finally show ?thesis
    by (simp add: urls algebra_simps)
qed

lemma cat_shard_1: "process_shard decimal (fetch cat_env) u 1 = [(''cat'', 6000)]"
  by (simp add: cat_env_def one_line_def process_shard_def process_shard_try_def
      process_line_def strip_def isspace_def is_clean_gram_def is_alpha_def is_letter_def
      decimal_def is_digit_def digit_value_def)

lemma cat_shard_other: "n \<noteq> 1 \<Longrightarrow> process_shard decimal (fetch cat_env) u n = []"
  by (simp add: cat_env_def one_line_def process_shard_def process_shard_try_def
      process_line_def strip_def isspace_def decimal_def is_digit_def digit_value_def)

lemma cat_aggregate_1:
  "snd (shard_loop decimal cat_env 1 empty_world) = [(''cat'', 156000)]"
proof -
  have "snd (shard_loop decimal cat_env 1 empty_world)
      = foldl (\<lambda>a u. merge a (process_shard decimal (fetch cat_env) u 1)) []
          (build_shard_urls 1)"
    unfolding shard_loop_def
    by (subst foldl_all_processed)
       (simp_all add: distinct_shard_ids is_done_def empty_world_def)
  also have "\<dots> = foldl (\<lambda>a u. merge a [(''cat'', 6000)]) [] (build_shard_urls 1)"
    by (simp add: cat_shard_1)
  also have "\<dots> = [(''cat'', 6000 * int (length (build_shard_urls 1)))]"
    by (rule foldl_merge_const_Nil) (simp add: build_shard_urls_1 letters_def)
  also have "\<dots> = [(''cat'', 156000)]"
    by (simp add: build_shard_urls_1 length_letters)
  finally show ?thesis .
qed

lemma cat_ranked_1:
  "ranked decimal cat_env empty_world 1 = [\<lparr>gram = ''cat'', freq = 156000\<rparr>]"
  by (simp add: ranked_def top_results_def cat_aggregate_1 cap_def filter_and_rank_def
      FREQUENCY_THRESHOLD_def slice_to_def sorted_reverse_def)

lemma cat_ranked_other:
  "2 \<le> j \<Longrightarrow> ranked decimal cat_env empty_world j = []"
  by (simp add: ranked_def top_results_nothing cat_shard_other)

lemma offline_ranked: "ranked decimal offline w j = []"
  by (simp add: ranked_def top_results_nothing process_shard_def process_shard_try_def
      offline_def)

section \<open>The consolidated artifacts and the job status\<close>

lemma cat_ranked_Suc_0:
  "ranked decimal cat_env empty_world (Suc 0) = [\<lparr>gram = ''cat'', freq = 156000\<rparr>]"
  using cat_ranked_1 by simp

theorem consolidated_only_when_nonempty_witness:
  "configured offline
   \<and> ranked decimal offline empty_world 1 = []
   \<and> Upload ''data/google-ngram/1gram_top.json'' (Ranked [])
       \<in> set (run_events decimal offline empty_world)
   \<and> Upload ''data/google-ngram/words_top.json'' (Ranked [])
       \<notin> set (run_events decimal offline empty_world)
   \<and> Upload ''data/google-ngram/words_top.json'' (Ranked [\<lparr>gram = ''cat'', freq = 156000\<rparr>])
       \<in> set (run_events decimal cat_env empty_world)"
proof -
  note a = consolidated_only_when_nonempty [OF configured_offline, of decimal empty_world]
  note b = consolidated_only_when_nonempty [OF configured_cat_env, of decimal empty_world]
  have one: "(1::nat) \<in> {1, 2, 3, 4, 5}" by simp
  have r: "ranked decimal offline empty_world 1 = []"
    by (rule offline_ranked)
  have top: "Upload (top_file 1) (Ranked []) \<in> set (run_events decimal offline empty_world)"
    using a one r by force
  have no_words: "Upload words_file (Ranked []) \<notin> set (run_events decimal offline empty_world)"
    using a r by blast
  have words: "Upload words_file (Ranked [\<lparr>gram = ''cat'', freq = 156000\<rparr>])
       \<in> set (run_events decimal cat_env empty_world)"
    using b cat_ranked_1 cat_ranked_Suc_0 by simp
  have paths: "top_file 1 = ''data/google-ngram/1gram_top.json''"
    "words_file = ''data/google-ngram/words_top.json''"
    using a by blast+
  show ?thesis
    using configured_offline r top no_words words unfolding paths by blast
qed



text \<open>
  C9 (amended). In a run with a bucket, the calls of the passes over the five gram orders
  come first; among them are the uploads of the five ranked outputs, and neither the
  write of the job status nor an upload of a consolidated artifact. Then the job status
  is written, and after it the consolidated artifacts are uploaded, \<open>words_top.json\<close>
  before \<open>phrases_top.json\<close>, each only when its list is not empty: the run ends with
  \<open>MARK_JOB_COMPLETE\<close> followed by \<open>PUBLISH_CONSOLIDATED\<close>.
\<close>

theorem job_status_before_consolidated:
  assumes "configured out"
  shows "run_events py_int out w =
           passes_events py_int out w 5
           @ Job_status
           # (if ranked py_int out w 1 \<noteq> []
              then [Upload words_file (Ranked (ranked py_int out w 1))] else [])
           @ (if ranked py_int out w 2 @ ranked py_int out w 3 @ ranked py_int out w 4
                   @ ranked py_int out w 5 \<noteq> []
              then [Upload phrases_file
                      (Ranked (ranked py_int out w 2 @ ranked py_int out w 3
                                 @ ranked py_int out w 4 @ ranked py_int out w 5))]
              else [])
       \<and> Job_status \<notin> set (passes_events py_int out w 5)
       \<and> (\<forall>p. Upload words_file p \<notin> set (passes_events py_int out w 5)
              \<and> Upload phrases_file p \<notin> set (passes_events py_int out w 5))
       \<and> (\<forall>j \<in> {1, 2, 3, 4, 5}.
             Upload (top_file (int j)) (Ranked (ranked py_int out w j))
               \<in> set (passes_events py_int out w 5))"
proof -
  have shape: "run_events py_int out w =
           passes_events py_int out w 5
           @ Job_status
           # (if ranked py_int out w 1 \<noteq> []
              then [Upload words_file (Ranked (ranked py_int out w 1))] else [])
           @ (if ranked py_int out w 2 @ ranked py_int out w 3 @ ranked py_int out w 4
                   @ ranked py_int out w 5 \<noteq> []
              then [Upload phrases_file
                      (Ranked (ranked py_int out w 2 @ ranked py_int out w 3
                                 @ ranked py_int out w 4 @ ranked py_int out w 5))]
              else [])"
    by (simp only: run_events_eq [OF assms] finish_events_def words_top_of_def
        phrases_top_of_def)
  have tops: "Upload (top_file (int j)) (Ranked (ranked py_int out w j))
      \<in> set (passes_events py_int out w 5)" if "j \<in> {1, 2, 3, 4, 5}" for j :: nat
    using that by (intro top_upload_in_passes) auto
  show ?thesis
    using shape tops no_job_status_in_passes [of py_int out w 5]
      no_consolidated_in_passes [of _ py_int out w 5]
    by blast
qed

theorem job_status_before_consolidated_witness:
  "configured cat_env
   \<and> run_events decimal cat_env empty_world =
       passes_events decimal cat_env empty_world 5
       @ [Job_status, Upload words_file (Ranked [\<lparr>gram = ''cat'', freq = 156000\<rparr>])]"
  using job_status_before_consolidated [OF configured_cat_env, of decimal empty_world]
    configured_cat_env
  by (simp add: cat_ranked_1 cat_ranked_Suc_0 cat_ranked_other)

text \<open>
  C9 as stated fails in a first run in which every shard of order 1 holds \<open>cat\<close> with
  6000 matches: the job status is written after the passes, and the upload of
  \<open>words_top.json\<close> comes after it, as the last call of the run.
\<close>

theorem job_status_counterexample:
  "run_events decimal cat_env empty_world =
     passes_events decimal cat_env empty_world 5
     @ [Job_status,
        Upload ''data/google-ngram/words_top.json''
          (Ranked [\<lparr>gram = ''cat'', freq = 156000\<rparr>])]
   \<and> Job_status \<notin> set (passes_events decimal cat_env empty_world 5)"
  by (simp add: run_events_eq [OF configured_cat_env] finish_events_def words_top_of_def
      phrases_top_of_def cat_ranked_1 cat_ranked_Suc_0 cat_ranked_other no_job_status_in_passes
      words_file_def out_prefix_def)

end
